theory Spec2Isabelle
  imports Main "HOL-Library.List_Lexorder" "HOL-Library.Multiset"
begin

unbundle bit_operations_syntax

section \<open>Python strings\<close>

text \<open>
  A Python \<^verbatim>\<open>str\<close> is a sequence of Unicode code points, so it is modelled as a list of
  natural numbers. \<open>py\<close> reads an ASCII literal.
\<close>

type_synonym pystr = "nat list"

definition py :: "string \<Rightarrow> pystr" where
  "py s = map of_char s"

datatype error =
  ValueError | AddressValueError | NetmaskValueError | TypeError | KeyError
  | FileNotFoundError | PortScannerError

text \<open>\<^verbatim>\<open>str.isspace\<close> of one character: the Unicode whitespace code points.\<close>

definition isspace :: "nat \<Rightarrow> bool" where
  "isspace c \<longleftrightarrow>
     (9 \<le> c \<and> c \<le> 13) \<or> (28 \<le> c \<and> c \<le> 32) \<or> c = 133 \<or> c = 160 \<or> c = 5760
     \<or> (8192 \<le> c \<and> c \<le> 8202) \<or> c = 8232 \<or> c = 8233 \<or> c = 8239 \<or> c = 8287 \<or> c = 12288"

text \<open>\<^verbatim>\<open>s.strip()\<close> and \<^verbatim>\<open>s.strip(")")\<close>: drop the characters from both ends.\<close>

definition strip_where :: "(nat \<Rightarrow> bool) \<Rightarrow> pystr \<Rightarrow> pystr" where
  "strip_where P s = rev (dropWhile P (rev (dropWhile P s)))"

definition strip :: "pystr \<Rightarrow> pystr" where
  "strip s = strip_where isspace s"

definition strip_char :: "nat \<Rightarrow> pystr \<Rightarrow> pystr" where
  "strip_char ch s = strip_where (\<lambda>c. c = ch) s"

text \<open>\<^verbatim>\<open>s.split(sep)\<close> for a separator of one character; the result is never empty.\<close>

fun split_char :: "nat \<Rightarrow> pystr \<Rightarrow> pystr list" where
  "split_char sep [] = [[]]"
| "split_char sep (c # cs) =
     (if c = sep then [] # split_char sep cs
      else (case split_char sep cs of [] \<Rightarrow> [[c]] | p # ps \<Rightarrow> (c # p) # ps))"

text \<open>\<^verbatim>\<open>sep.join(parts)\<close>.\<close>

fun join :: "pystr \<Rightarrow> pystr list \<Rightarrow> pystr" where
  "join sep [] = []"
| "join sep [p] = p"
| "join sep (p # q # ps) = p @ sep @ join sep (q # ps)"

definition startswith :: "pystr \<Rightarrow> pystr \<Rightarrow> bool" where
  "startswith s pre \<longleftrightarrow> take (length pre) s = pre"

text \<open>\<^verbatim>\<open>sub in s\<close>: the substring test.\<close>

fun py_in :: "pystr \<Rightarrow> pystr \<Rightarrow> bool" where
  "py_in sub [] = (sub = [])"
| "py_in sub (c # cs) = (startswith (c # cs) sub \<or> py_in sub cs)"

text \<open>
  \<^verbatim>\<open>s.replace(old, new)\<close> for a non-empty \<open>old\<close>: every occurrence, left to right,
  without overlap. The counter skips the rest of an occurrence just replaced.
\<close>

fun replace_skip :: "pystr \<Rightarrow> pystr \<Rightarrow> nat \<Rightarrow> pystr \<Rightarrow> pystr" where
  "replace_skip old new k [] = []"
| "replace_skip old new k (c # cs) =
     (if k > 0 then replace_skip old new (k - 1) cs
      else if startswith (c # cs) old then new @ replace_skip old new (length old - 1) cs
      else c # replace_skip old new 0 cs)"

definition replace :: "pystr \<Rightarrow> pystr \<Rightarrow> pystr \<Rightarrow> pystr" where
  "replace s old new = replace_skip old new 0 s"

text \<open>
  Line boundaries of \<^verbatim>\<open>str.splitlines\<close>: \<^verbatim>\<open>\n\<close>, \<^verbatim>\<open>\r\<close>, \<^verbatim>\<open>\v\<close>, \<^verbatim>\<open>\f\<close>,
  \<^verbatim>\<open>\x1c\<close>, \<^verbatim>\<open>\x1d\<close>, \<^verbatim>\<open>\x1e\<close>, \<^verbatim>\<open>\x85\<close>, U+2028, U+2029; the
  pair \<^verbatim>\<open>\r\n\<close> is one boundary.
\<close>

definition linebreak :: "nat \<Rightarrow> bool" where
  "linebreak c \<longleftrightarrow> (10 \<le> c \<and> c \<le> 13) \<or> (28 \<le> c \<and> c \<le> 30) \<or> c = 133 \<or> c = 8232 \<or> c = 8233"

fun crlf :: "pystr \<Rightarrow> pystr" where
  "crlf (c # d # cs) = (if c = 13 \<and> d = 10 then 10 # crlf cs else c # crlf (d # cs))"
| "crlf cs = cs"

fun lines_of :: "pystr \<Rightarrow> pystr list" where
  "lines_of [] = []"
| "lines_of (c # cs) =
     (if linebreak c then [] # lines_of cs
      else (case lines_of cs of [] \<Rightarrow> [[c]] | l # ls \<Rightarrow> (c # l) # ls))"

definition splitlines :: "pystr \<Rightarrow> pystr list" where
  "splitlines s = lines_of (crlf s)"

text \<open>
  Reading a file opened in text mode translates \<^verbatim>\<open>\r\n\<close> and \<^verbatim>\<open>\r\<close> to \<^verbatim>\<open>\n\<close>
  (universal newlines).
\<close>

definition read_text :: "pystr \<Rightarrow> pystr" where
  "read_text content = map (\<lambda>c. if c = 13 then 10 else c) (crlf content)"

text \<open>\<^verbatim>\<open>str(n)\<close> for a non-negative integer, and for any integer.\<close>

function str_nat :: "nat \<Rightarrow> pystr" where
  "str_nat n = (if n < 10 then [48 + n] else str_nat (n div 10) @ [48 + n mod 10])"
  by pat_completeness auto
termination
  by (relation "measure id") auto

declare str_nat.simps [simp del]

definition str_int :: "int \<Rightarrow> pystr" where
  "str_int i = (if i < 0 then 45 # str_nat (nat (- i)) else str_nat (nat i))"

text \<open>\<^verbatim>\<open>s.isascii() and s.isdigit()\<close>: non-empty and made of the digits 0 to 9.\<close>

definition ascii_digits :: "pystr \<Rightarrow> bool" where
  "ascii_digits s \<longleftrightarrow> s \<noteq> [] \<and> list_all (\<lambda>c. 48 \<le> c \<and> c \<le> 57) s"

definition digits_value :: "pystr \<Rightarrow> nat" where
  "digits_value s = foldl (\<lambda>a c. 10 * a + (c - 48)) 0 s"

section \<open>IPv4 networks as the program uses them\<close>

text \<open>
  The scripts build their scan units with Python's standard \<^verbatim>\<open>ipaddress\<close> module. An
  \<^verbatim>\<open>IPv4Network\<close> object is a network address (an unbounded non-negative Python integer)
  and a prefix length. The operations below follow the module's methods of the same name.
\<close>

record network =
  network_address :: nat
  prefixlen :: nat

definition max_prefixlen :: nat where
  "max_prefixlen = 32"

definition ALL_ONES :: nat where
  "ALL_ONES = 2 ^ 32 - 1"

text \<open>\<^verbatim>\<open>_ip_int_from_prefix\<close>: \<^verbatim>\<open>ALL_ONES ^ (ALL_ONES >> prefixlen)\<close>.\<close>

definition ip_int_from_prefix :: "nat \<Rightarrow> nat" where
  "ip_int_from_prefix p = ALL_ONES XOR (drop_bit p ALL_ONES)"

definition netmask :: "network \<Rightarrow> nat" where
  "netmask n = ip_int_from_prefix (prefixlen n)"

text \<open>\<^verbatim>\<open>hostmask\<close>: \<^verbatim>\<open>int(self.netmask) ^ ALL_ONES\<close>.\<close>

definition hostmask :: "network \<Rightarrow> nat" where
  "hostmask n = netmask n XOR ALL_ONES"

text \<open>\<^verbatim>\<open>broadcast_address\<close>: \<^verbatim>\<open>int(self.network_address) | int(self.hostmask)\<close>.\<close>

definition broadcast_address :: "network \<Rightarrow> nat" where
  "broadcast_address n = network_address n OR hostmask n"

text \<open>
  Membership of an address in a network, \<^verbatim>\<open>addr in net\<close>: the address lies between the
  network address and the broadcast address.
\<close>

definition contains :: "network \<Rightarrow> nat \<Rightarrow> bool" where
  "contains n a \<longleftrightarrow> network_address n \<le> a \<and> a \<le> broadcast_address n"

text \<open>
  \<^verbatim>\<open>_BaseNetwork.__lt__\<close> for two networks of the same version: compare the network
  addresses, then the netmasks.
\<close>

definition net_lt :: "network \<Rightarrow> network \<Rightarrow> bool" where
  "net_lt a b =
     (if network_address a \<noteq> network_address b then network_address a < network_address b
      else if netmask a \<noteq> netmask b then netmask a < netmask b
      else False)"

text \<open>
  Python's \<^verbatim>\<open>range(start, stop, step)\<close> for a non-negative step: a zero step raises
  \<^verbatim>\<open>ValueError\<close>, otherwise the values \<^verbatim>\<open>start + k * step\<close> below \<^verbatim>\<open>stop\<close>.
\<close>

definition py_range :: "nat \<Rightarrow> nat \<Rightarrow> nat \<Rightarrow> error + nat list" where
  "py_range start stop step =
     (if step = 0 then Inl ValueError
      else Inr (map (\<lambda>k. start + k * step) [0 ..< (stop - start + step - 1) div step]))"

text \<open>
  \<^verbatim>\<open>subnets(new_prefix=q)\<close>: a /32 network yields itself; a shorter new prefix or one
  beyond 32 raises \<^verbatim>\<open>ValueError\<close>; otherwise the subnets start at every multiple of the
  new block size between the network address and the broadcast address.
\<close>

definition subnets :: "network \<Rightarrow> nat \<Rightarrow> error + network list" where
  "subnets self new_prefix =
     (if prefixlen self = max_prefixlen then Inr [self]
      else if new_prefix < prefixlen self then Inl ValueError
      else
        let prefixlen_diff = new_prefix - prefixlen self;
            new_prefixlen = prefixlen self + prefixlen_diff
        in if new_prefixlen > max_prefixlen then Inl ValueError
           else
             let start = network_address self;
                 end = broadcast_address self + 1;
                 step = drop_bit prefixlen_diff (hostmask self + 1)
             in case py_range start end step of
                  Inl e \<Rightarrow> Inl e
                | Inr addrs \<Rightarrow>
                    Inr (map (\<lambda>new_addr. \<lparr>network_address = new_addr, prefixlen = new_prefixlen\<rparr>)
                           addrs))"

section \<open>Parsing and printing networks\<close>

text \<open>
  \<^verbatim>\<open>IPv4Address._parse_octet\<close>: decimal digits only, at most three, no leading zero, at
  most 255.
\<close>

definition parse_octet :: "pystr \<Rightarrow> error + nat" where
  "parse_octet octet_str =
     (if octet_str = [] then Inl ValueError
      else if \<not> ascii_digits octet_str then Inl ValueError
      else if length octet_str > 3 then Inl ValueError
      else if octet_str \<noteq> py ''0'' \<and> hd octet_str = 48 then Inl ValueError
      else let octet_int = digits_value octet_str
           in if octet_int > 255 then Inl ValueError else Inr octet_int)"

text \<open>The octets are parsed in order; the first failure ends the conversion.\<close>

fun parse_octets :: "pystr list \<Rightarrow> error + nat list" where
  "parse_octets [] = Inr []"
| "parse_octets (s # ss) =
     (case parse_octet s of
        Inl e \<Rightarrow> Inl e
      | Inr b \<Rightarrow> (case parse_octets ss of Inl e \<Rightarrow> Inl e | Inr bs \<Rightarrow> Inr (b # bs)))"

text \<open>\<^verbatim>\<open>int.from_bytes(..., 'big')\<close>.\<close>

definition from_bytes_big :: "nat list \<Rightarrow> nat" where
  "from_bytes_big bs = foldl (\<lambda>a b. 256 * a + b) 0 bs"

text \<open>\<^verbatim>\<open>IPv4Address._ip_int_from_string\<close>.\<close>

definition ip_int_from_string :: "pystr \<Rightarrow> error + nat" where
  "ip_int_from_string ip_str =
     (if ip_str = [] then Inl AddressValueError
      else let octets = split_char 46 ip_str
           in if length octets \<noteq> 4 then Inl AddressValueError
              else (case parse_octets octets of
                      Inl e \<Rightarrow> Inl AddressValueError
                    | Inr bs \<Rightarrow> Inr (from_bytes_big bs)))"

text \<open>\<^verbatim>\<open>IPv4Address(addr)\<close> for a string: a slash is refused, then the string is parsed.\<close>

definition IPv4Address :: "pystr \<Rightarrow> error + nat" where
  "IPv4Address addr_str =
     (if 47 \<in> set addr_str then Inl AddressValueError else ip_int_from_string addr_str)"

text \<open>
  \<^verbatim>\<open>_split_addr_prefix\<close>: split at the slash; more than one slash is an error; without
  a slash the prefix is the maximal one (\<open>None\<close> here).
\<close>

definition split_addr_prefix :: "pystr \<Rightarrow> error + pystr \<times> pystr option" where
  "split_addr_prefix address =
     (case split_char 47 address of
        [addr] \<Rightarrow> Inr (addr, None)
      | [addr, mask_str] \<Rightarrow> Inr (addr, Some mask_str)
      | _ \<Rightarrow> Inl AddressValueError)"

text \<open>\<^verbatim>\<open>_prefix_from_prefix_string\<close>: a decimal prefix length between 0 and 32.\<close>

definition prefix_from_prefix_string :: "pystr \<Rightarrow> error + nat" where
  "prefix_from_prefix_string prefixlen_str =
     (if \<not> ascii_digits prefixlen_str then Inl NetmaskValueError
      else let p = digits_value prefixlen_str
           in if \<not> p \<le> max_prefixlen then Inl NetmaskValueError else Inr p)"

text \<open>
  \<^verbatim>\<open>_count_righthand_zero_bits(number, bits)\<close>: the number of trailing zero bits, at most
  \<open>bits\<close>, and \<open>bits\<close> for zero.
\<close>

fun righthand_zero_bits :: "nat \<Rightarrow> nat \<Rightarrow> nat" where
  "righthand_zero_bits number 0 = 0"
| "righthand_zero_bits number (Suc b) =
     (if odd number then 0 else Suc (righthand_zero_bits (number div 2) b))"

definition count_righthand_zero_bits :: "nat \<Rightarrow> nat \<Rightarrow> nat" where
  "count_righthand_zero_bits number bits =
     (if number = 0 then bits else righthand_zero_bits number bits)"

text \<open>\<^verbatim>\<open>_prefix_from_ip_int\<close>: the prefix length of a netmask of the form 1...10...0.\<close>

definition prefix_from_ip_int :: "nat \<Rightarrow> error + nat" where
  "prefix_from_ip_int ip_int =
     (let trailing_zeroes = count_righthand_zero_bits ip_int max_prefixlen;
          prefixlen = max_prefixlen - trailing_zeroes;
          leading_ones = drop_bit trailing_zeroes ip_int;
          all_ones = push_bit prefixlen 1 - 1
      in if leading_ones \<noteq> all_ones then Inl ValueError else Inr prefixlen)"

text \<open>
  \<^verbatim>\<open>_prefix_from_ip_string\<close>: a netmask in dotted form, or else a hostmask in dotted
  form.
\<close>

definition prefix_from_ip_string :: "pystr \<Rightarrow> error + nat" where
  "prefix_from_ip_string ip_str =
     (case ip_int_from_string ip_str of
        Inl e \<Rightarrow> Inl NetmaskValueError
      | Inr ip_int \<Rightarrow>
          (case prefix_from_ip_int ip_int of
             Inr p \<Rightarrow> Inr p
           | Inl e \<Rightarrow>
               (case prefix_from_ip_int (ip_int XOR ALL_ONES) of
                  Inr p \<Rightarrow> Inr p
                | Inl e' \<Rightarrow> Inl NetmaskValueError)))"

text \<open>\<^verbatim>\<open>_make_netmask\<close>: the prefix length of the part after the slash.\<close>

definition make_netmask :: "pystr option \<Rightarrow> error + nat" where
  "make_netmask arg =
     (case arg of
        None \<Rightarrow> Inr max_prefixlen
      | Some mask_str \<Rightarrow>
          (case prefix_from_prefix_string mask_str of
             Inr p \<Rightarrow> Inr p
           | Inl e \<Rightarrow> prefix_from_ip_string mask_str))"

text \<open>
  \<^verbatim>\<open>IPv4Network(address, strict)\<close>: host bits set in the address raise \<^verbatim>\<open>ValueError\<close>
  when \<open>strict\<close>, and are cleared otherwise.
\<close>

definition IPv4Network :: "pystr \<Rightarrow> bool \<Rightarrow> error + network" where
  "IPv4Network address strict =
     (case split_addr_prefix address of
        Inl e \<Rightarrow> Inl e
      | Inr (addr, mask_str) \<Rightarrow>
          (case IPv4Address addr of
             Inl e \<Rightarrow> Inl e
           | Inr packed \<Rightarrow>
               (case make_netmask mask_str of
                  Inl e \<Rightarrow> Inl e
                | Inr p \<Rightarrow>
                    if packed AND ip_int_from_prefix p \<noteq> packed
                    then (if strict then Inl ValueError
                          else Inr \<lparr>network_address = packed AND ip_int_from_prefix p,
                                    prefixlen = p\<rparr>)
                    else Inr \<lparr>network_address = packed, prefixlen = p\<rparr>)))"

text \<open>\<^verbatim>\<open>str(network)\<close>: the dotted address, a slash and the prefix length.\<close>

definition str_address :: "nat \<Rightarrow> pystr" where
  "str_address a =
     join (py ''.'')
       (map str_nat [a div 2 ^ 24 mod 256, a div 2 ^ 16 mod 256, a div 2 ^ 8 mod 256, a mod 256])"

definition str_network :: "network \<Rightarrow> pystr" where
  "str_network n = str_address (network_address n) @ py ''/'' @ str_nat (prefixlen n)"

text \<open>
  \<^verbatim>\<open>ipaddress.ip_network(address)\<close> tries \<^verbatim>\<open>IPv4Network\<close>, then \<^verbatim>\<open>IPv6Network\<close>, each
  strict, and raises \<^verbatim>\<open>ValueError\<close> when both refuse the string. The IPv6 parser refuses
  every string with fewer than two colons; which of the other strings it accepts is the
  parameter \<open>v6\<close>. The value of an IPv6 network is never used by the program.
\<close>

datatype ip_net = Net4 network | Net6

definition ip_network :: "(pystr \<Rightarrow> bool) \<Rightarrow> pystr \<Rightarrow> error + ip_net" where
  "ip_network v6 address =
     (case IPv4Network address True of
        Inr n \<Rightarrow> Inr (Net4 n)
      | Inl e \<Rightarrow>
          if e = AddressValueError \<or> e = NetmaskValueError
          then (if length (filter (\<lambda>c. c = 58) address) < 2 then Inl ValueError
                else if v6 address then Inr Net6 else Inl ValueError)
          else Inl e)"

section \<open>Subnethostfinder: enumerating and submitting the scan units\<close>

text \<open>\<^verbatim>\<open>base_network = ipaddress.ip_network("10.0.0.0/8")\<close>.\<close>

definition base_network :: network where
  "base_network = \<lparr>network_address = 10 * 2 ^ 24, prefixlen = 8\<rparr>"

text \<open>
  The test \<^verbatim>\<open>start_network and subnet_24 < start_network\<close>. Without a start network
  nothing is skipped; comparing with a network of the other IP version raises
  \<^verbatim>\<open>TypeError\<close>.
\<close>

definition skip_unit :: "ip_net option \<Rightarrow> network \<Rightarrow> error + bool" where
  "skip_unit start_network subnet_24 =
     (case start_network of
        None \<Rightarrow> Inr False
      | Some Net6 \<Rightarrow> Inl TypeError
      | Some (Net4 m) \<Rightarrow> Inr (net_lt subnet_24 m))"

text \<open>
  The inner loop \<^verbatim>\<open>for subnet_24 in subnet_16.subnets(new_prefix=24)\<close>: a unit below
  the start network is passed over (\<^verbatim>\<open>continue\<close>), every other unit is submitted to the
  executor. The result lists the submitted units in submission order.
\<close>

fun submit_24 :: "ip_net option \<Rightarrow> network list \<Rightarrow> error + network list" where
  "submit_24 start_network [] = Inr []"
| "submit_24 start_network (subnet_24 # rest) =
     (case skip_unit start_network subnet_24 of
        Inl e \<Rightarrow> Inl e
      | Inr skip \<Rightarrow>
          (case submit_24 start_network rest of
             Inl e \<Rightarrow> Inl e
           | Inr subs \<Rightarrow> Inr (if skip then subs else subnet_24 # subs)))"

text \<open>The outer loop \<^verbatim>\<open>for subnet_16 in base_network.subnets(new_prefix=16)\<close>.\<close>

fun submit_16 :: "ip_net option \<Rightarrow> network list \<Rightarrow> error + network list" where
  "submit_16 start_network [] = Inr []"
| "submit_16 start_network (subnet_16 # rest) =
     (case subnets subnet_16 24 of
        Inl e \<Rightarrow> Inl e
      | Inr s24 \<Rightarrow>
          (case submit_24 start_network s24 of
             Inl e \<Rightarrow> Inl e
           | Inr subs \<Rightarrow>
               (case submit_16 start_network rest of
                  Inl e \<Rightarrow> Inl e
                | Inr others \<Rightarrow> Inr (subs @ others))))"

definition submit_units :: "ip_net option \<Rightarrow> network \<Rightarrow> error + network list" where
  "submit_units start_network base =
     (case subnets base 16 of Inl e \<Rightarrow> Inl e | Inr s16 \<Rightarrow> submit_16 start_network s16)"

text \<open>
  The partition itself: the units the two nested loops visit when nothing is skipped.
\<close>

definition two_level_units :: "network \<Rightarrow> error + network list" where
  "two_level_units base = submit_units None base"

text \<open>
  The single-level partition the specification compares with: the base range split
  directly to the target prefix, \<^verbatim>\<open>base.subnets(new_prefix=24)\<close>.
\<close>

definition single_level_units :: "network \<Rightarrow> error + network list" where
  "single_level_units base = subnets base 24"

section \<open>Subnethostfinder: probing, progress and reports\<close>

text \<open>
  What \<^verbatim>\<open>subprocess.run(["nmap", "-sn", subnet], ..., timeout=timeout)\<close> does for a
  subnet: it returns with the standard output, raises \<^verbatim>\<open>TimeoutExpired\<close>, or raises
  another exception. A probe fixture maps the subnet string and the timeout to one of
  these.
\<close>

datatype outcome = Completed pystr | TimedOut | Failed

type_synonym prober = "pystr \<Rightarrow> int \<Rightarrow> outcome"

text \<open>
  The files of a run: \<open>None\<close> is a file that does not exist. The four paths given on the
  command line are taken to name different files, and file operations themselves to
  succeed.
\<close>

record files =
  progress_file :: "pystr option"
  nmap_output_file :: "pystr option"

text \<open>
  The text \<^verbatim>\<open>run_nmap_scan\<close> appends for a completed scan: a header line with the subnet,
  a line \<^verbatim>\<open>Cikti:\<close> (in Turkish spelling), the output and a newline.
\<close>

definition scan_entry :: "pystr \<Rightarrow> pystr \<Rightarrow> pystr" where
  "scan_entry subnet stdout =
     py ''[+] Nmap taramas'' @ [305] @ py '' tamamland'' @ [305] @ py '': '' @ subnet @ [10]
     @ [199, 305] @ py ''kt'' @ [305] @ py '':'' @ [10] @ stdout @ [10]"

text \<open>
  \<^verbatim>\<open>run_nmap_scan(subnet, nmap_output_file, timeout)\<close>: a completed scan is appended to
  the output file (opened in mode \<^verbatim>\<open>"a"\<close>, which creates it) and its output returned; a
  timeout or any other exception is caught and the empty string returned. The result is
  the output file afterwards and the returned string.
\<close>

definition run_nmap_scan :: "prober \<Rightarrow> pystr \<Rightarrow> pystr option \<Rightarrow> int \<Rightarrow> pystr option \<times> pystr" where
  "run_nmap_scan nmap subnet nmap_output timeout =
     (case nmap subnet timeout of
        Completed stdout \<Rightarrow>
          (Some ((case nmap_output of None \<Rightarrow> [] | Some content \<Rightarrow> content)
                 @ scan_entry subnet stdout), stdout)
      | TimedOut \<Rightarrow> (nmap_output, [])
      | Failed \<Rightarrow> (nmap_output, []))"

text \<open>
  \<^verbatim>\<open>active_hosts[subnet].append(host)\<close> on a \<^verbatim>\<open>defaultdict(list)\<close>; the dictionary keeps
  its keys in the order of their first insertion.
\<close>

type_synonym host_table = "(pystr \<times> pystr list) list"

fun add_host :: "host_table \<Rightarrow> pystr \<Rightarrow> pystr \<Rightarrow> host_table" where
  "add_host [] subnet host = [(subnet, [host])]"
| "add_host ((k, hosts) # rest) subnet host =
     (if k = subnet then (k, hosts @ [host]) # rest else (k, hosts) # add_host rest subnet host)"

text \<open>
  What one line contributes in the loop of \<^verbatim>\<open>parse_nmap_output\<close>: for a line with
  \<^verbatim>\<open>Nmap scan report for\<close>, the host text and the /24 subnet derived from its address;
  nothing for any other line, or when the address does not parse (\<^verbatim>\<open>continue\<close>).
\<close>

definition report_line :: "pystr \<Rightarrow> (pystr \<times> pystr) option" where
  "report_line line =
     (if py_in (py ''Nmap scan report for'') line then
        let host = strip (replace line (py ''Nmap scan report for '') []);
            ip = (if py_in (py ''('') host then strip_char 41 (last (split_char 40 host))
                  else host)
        in case IPv4Network (ip @ py ''/24'') False of
             Inl e \<Rightarrow> None
           | Inr n \<Rightarrow> Some (str_network n, host)
      else None)"

text \<open>The body of the loop over the lines.\<close>

definition parse_line :: "host_table \<Rightarrow> pystr \<Rightarrow> host_table" where
  "parse_line active_hosts line =
     (case report_line line of
        None \<Rightarrow> active_hosts
      | Some (subnet, host) \<Rightarrow> add_host active_hosts subnet host)"

text \<open>
  \<^verbatim>\<open>parse_nmap_output\<close>: opening a missing file raises; otherwise the host table is
  built line by line and every subnet with at least two entries is put into the set of
  active subnets.
\<close>

definition parse_nmap_output :: "pystr option \<Rightarrow> error + pystr set \<times> host_table" where
  "parse_nmap_output nmap_output =
     (case nmap_output of
        None \<Rightarrow> Inl FileNotFoundError
      | Some content \<Rightarrow>
          let lines = splitlines (read_text content);
              active_hosts = foldl parse_line [] lines;
              active_subnets =
                set (map fst (filter (\<lambda>(subnet, hosts). length hosts \<ge> 2) active_hosts))
          in Inr (active_subnets, active_hosts))"

text \<open>\<^verbatim>\<open>save_to_file\<close>: the items in sorted order, one per line.\<close>

definition save_to_file :: "pystr set \<Rightarrow> pystr" where
  "save_to_file data = concat (map (\<lambda>item. item @ [10]) (sorted_list_of_set data))"

text \<open>The host report written at the end of \<^verbatim>\<open>scan_networks\<close>.\<close>

definition hosts_report :: "host_table \<Rightarrow> pystr" where
  "hosts_report active_hosts =
     concat (map (\<lambda>(subnet, hosts).
        if length hosts \<ge> 2
        then py ''Subnet: '' @ subnet @ [10]
             @ concat (map (\<lambda>host. py ''  '' @ host @ [10]) hosts) @ [10]
        else []) active_hosts)"

text \<open>\<^verbatim>\<open>save_progress\<close> overwrites the progress file with the given string.\<close>

definition save_progress :: "pystr option \<Rightarrow> pystr \<Rightarrow> pystr option" where
  "save_progress file current_network = Some current_network"

text \<open>\<^verbatim>\<open>load_progress\<close>: the stripped content of the file, \<^verbatim>\<open>None\<close> without a file.\<close>

definition load_progress :: "pystr option \<Rightarrow> pystr option" where
  "load_progress file =
     (case file of None \<Rightarrow> None | Some content \<Rightarrow> Some (strip (read_text content)))"

text \<open>
  \<^verbatim>\<open>start_network = ipaddress.ip_network(start_network) if start_network else None\<close>:
  \<^verbatim>\<open>None\<close> and the empty string are false; any other string is parsed, and a string that
  is no network raises.
\<close>

definition start_network_of :: "(pystr \<Rightarrow> bool) \<Rightarrow> pystr option \<Rightarrow> error + ip_net option" where
  "start_network_of v6 loaded =
     (case loaded of
        None \<Rightarrow> Inr None
      | Some s \<Rightarrow>
          if s = [] then Inr None
          else (case ip_network v6 s of Inl e \<Rightarrow> Inl e | Inr n \<Rightarrow> Inr (Some n)))"

text \<open>
  The worker threads: each submitted unit is scanned once; \<open>subnets\<close> lists the units in
  the order in which their scans append to the output file (an append is taken to be
  atomic).
\<close>

fun run_scans :: "prober \<Rightarrow> int \<Rightarrow> pystr option \<Rightarrow> pystr list \<Rightarrow> pystr option" where
  "run_scans nmap timeout nmap_output [] = nmap_output"
| "run_scans nmap timeout nmap_output (subnet # rest) =
     run_scans nmap timeout (fst (run_nmap_scan nmap subnet nmap_output timeout)) rest"

text \<open>
  The loop \<^verbatim>\<open>for future in as_completed(scan_futures)\<close>: one \<^verbatim>\<open>save_progress\<close> for every
  completed unit, in completion order. The result lists the content of the progress file
  after each write.
\<close>

fun save_completed :: "pystr option \<Rightarrow> pystr list \<Rightarrow> pystr option list" where
  "save_completed file [] = []"
| "save_completed file (subnet # rest) =
     (let file' = save_progress file subnet in file' # save_completed file' rest)"

text \<open>
  A schedule of the thread pool: from the units in submission order, the order in which
  the scans write their output and the order in which the futures complete.
\<close>

record schedule =
  write_order :: "network list \<Rightarrow> network list"
  completion_order :: "network list \<Rightarrow> network list"

text \<open>
  One run of \<^verbatim>\<open>scan_networks\<close>: the files afterwards, the units submitted to the
  executor (in submission order), the successive contents of the progress file, and
  either the exception that ended the run or the two reports (active subnets, hosts).
\<close>

record run =
  files_after :: files
  submitted :: "network list"
  progress_writes :: "pystr option list"
  reports :: "error + pystr \<times> pystr"

definition scan_networks :: "(pystr \<Rightarrow> bool) \<Rightarrow> prober \<Rightarrow> schedule \<Rightarrow> int \<Rightarrow> files \<Rightarrow> run" where
  "scan_networks v6 nmap sched timeout fs =
     (case start_network_of v6 (load_progress (progress_file fs)) of
        Inl e \<Rightarrow> \<lparr>files_after = fs, submitted = [], progress_writes = [], reports = Inl e\<rparr>
      | Inr start_network \<Rightarrow>
          (case submit_units start_network base_network of
             Inl e \<Rightarrow> \<lparr>files_after = fs, submitted = [], progress_writes = [], reports = Inl e\<rparr>
           | Inr subs \<Rightarrow>
               let out = run_scans nmap timeout (nmap_output_file fs)
                           (map str_network (write_order sched subs));
                   writes = save_completed (progress_file fs)
                              (map str_network (completion_order sched subs));
                   fs' = \<lparr>progress_file = last (progress_file fs # writes),
                          nmap_output_file = out\<rparr>
               in (case parse_nmap_output out of
                     Inl e \<Rightarrow>
                       \<lparr>files_after = fs', submitted = subs, progress_writes = writes,
                        reports = Inl e\<rparr>
                   | Inr (active_subnets, active_hosts) \<Rightarrow>
                       \<lparr>files_after = fs', submitted = subs, progress_writes = writes,
                        reports = Inr (save_to_file active_subnets,
                                       hosts_report active_hosts)\<rparr>)))"

text \<open>
  Inputs on which the model is run below: an IPv6 parser that accepts nothing (it is only
  consulted for strings with two colons or more), a probe that always times out, the
  schedules in which the scans write and complete in submission order, or complete in
  the reverse order, or write in the reverse order, and a run directory without files.
\<close>

definition no_ipv6 :: "pystr \<Rightarrow> bool" where
  "no_ipv6 address = False"

definition always_timeout :: prober where
  "always_timeout subnet timeout = TimedOut"

definition in_order :: schedule where
  "in_order = \<lparr>write_order = (\<lambda>subs. subs), completion_order = (\<lambda>subs. subs)\<rparr>"

definition reverse_completion :: schedule where
  "reverse_completion = \<lparr>write_order = (\<lambda>subs. subs), completion_order = rev\<rparr>"

definition reverse_writes :: schedule where
  "reverse_writes = \<lparr>write_order = rev, completion_order = (\<lambda>subs. subs)\<rparr>"

definition no_files :: files where
  "no_files = \<lparr>progress_file = None, nmap_output_file = None\<rparr>"

section \<open>getserviceforall: the SMB enumeration\<close>

text \<open>
  The dictionary returned by \<^verbatim>\<open>scanner.scan\<close> of the \<^verbatim>\<open>nmap\<close> package, as far as the
  script reads it: for a host and a TCP port, the state of the port and the output of
  the scripts by name (\<^verbatim>\<open>result["scan"][host]["tcp"][port]\<close>). The package is not part
  of the repository; a scanner is a parameter mapping the arguments \<^verbatim>\<open>hosts\<close>,
  \<^verbatim>\<open>ports\<close> and \<^verbatim>\<open>arguments\<close> of a call to the returned dictionary or to the exception
  raised.
\<close>

record port_result =
  state :: pystr
  script :: "(pystr \<times> pystr) list"

record scan_result =
  scan :: "(pystr \<times> (int \<times> port_result) list) list"

type_synonym scanner = "pystr \<Rightarrow> pystr \<Rightarrow> pystr \<Rightarrow> error + scan_result"

type_synonym scanner_call = "pystr \<times> pystr \<times> pystr"

text \<open>
  \<^verbatim>\<open>scan_result["scan"][host]["tcp"][port]["state"]\<close>: a missing key raises
  \<^verbatim>\<open>KeyError\<close>.
\<close>

definition port_state :: "scan_result \<Rightarrow> pystr \<Rightarrow> int \<Rightarrow> error + pystr" where
  "port_state r host port =
     (case map_of (scan r) host of
        None \<Rightarrow> Inl KeyError
      | Some tcp \<Rightarrow>
          (case map_of tcp port of None \<Rightarrow> Inl KeyError | Some pr \<Rightarrow> Inr (state pr)))"

text \<open>
  Python's \<^verbatim>\<open>int(s)\<close> on a string: surrounding whitespace is ignored, then an optional
  sign and decimal digits, with single underscores allowed between digits. Digits are
  the ASCII digits here; other Unicode digits are refused.
\<close>

definition int_literal :: "pystr \<Rightarrow> bool" where
  "int_literal d \<longleftrightarrow>
     d \<noteq> [] \<and> list_all (\<lambda>c. (48 \<le> c \<and> c \<le> 57) \<or> c = 95) d \<and> hd d \<noteq> 95 \<and> last d \<noteq> 95
     \<and> \<not> py_in (py ''__'') d"

definition py_int :: "pystr \<Rightarrow> error + int" where
  "py_int s =
     (let t = strip s;
          negative = (t \<noteq> [] \<and> hd t = 45);
          d = (if t \<noteq> [] \<and> (hd t = 45 \<or> hd t = 43) then tl t else t)
      in if \<not> int_literal d then Inl ValueError
         else let v = int (digits_value (filter (\<lambda>c. c \<noteq> 95) d))
              in Inr (if negative then - v else v))"

text \<open>
  The loop of \<^verbatim>\<open>check_port_open\<close> over \<^verbatim>\<open>ports.split(',')\<close>: a port whose state is
  \<^verbatim>\<open>"open"\<close> is appended, a \<^verbatim>\<open>KeyError\<close> is passed over, and a port that is no integer
  raises out of the loop.
\<close>

fun open_ports_loop :: "scan_result \<Rightarrow> pystr \<Rightarrow> pystr list \<Rightarrow> error + int list" where
  "open_ports_loop scan_result host [] = Inr []"
| "open_ports_loop scan_result host (port_str # rest) =
     (case py_int (strip port_str) of
        Inl e \<Rightarrow> Inl e
      | Inr port \<Rightarrow>
          (case open_ports_loop scan_result host rest of
             Inl e \<Rightarrow> Inl e
           | Inr open_ports \<Rightarrow>
               (case port_state scan_result host port of
                  Inl e \<Rightarrow> Inr open_ports
                | Inr st \<Rightarrow> Inr (if st = py ''open'' then port # open_ports else open_ports))))"

text \<open>
  \<^verbatim>\<open>check_port_open\<close>: any exception of the scan or of the loop is caught and the empty
  list returned.
\<close>

definition check_port_open :: "scanner \<Rightarrow> pystr \<Rightarrow> pystr \<Rightarrow> int list" where
  "check_port_open scanner host ports =
     (case scanner host ports (py ''-Pn'') of
        Inl e \<Rightarrow> []
      | Inr scan_result \<Rightarrow>
          (case open_ports_loop scan_result host (split_char 44 ports) of
             Inl e \<Rightarrow> []
           | Inr open_ports \<Rightarrow> open_ports))"

text \<open>
  The loop of \<^verbatim>\<open>scan_host\<close> over the SMB ports: for an SMB port that is open, one scan
  with all scripts in one \<^verbatim>\<open>--script\<close> argument; its result is appended, and an
  exception is printed and dropped. The second component lists the scans issued.
\<close>

fun smb_loop ::
  "scanner \<Rightarrow> pystr \<Rightarrow> int list \<Rightarrow> pystr list \<Rightarrow> int list \<Rightarrow> scan_result list \<times> scanner_call list" where
  "smb_loop scanner target open_ports smb_scripts [] = ([], [])"
| "smb_loop scanner target open_ports smb_scripts (smb_port # rest) =
     (let (results, calls) = smb_loop scanner target open_ports smb_scripts rest
      in if smb_port \<in> set open_ports then
           let script_arguments = py ''--script '' @ join (py '','') smb_scripts;
               call = (target, str_int smb_port, script_arguments)
           in (case scanner target (str_int smb_port) script_arguments of
                 Inl e \<Rightarrow> (results, call # calls)
               | Inr scan_result \<Rightarrow> (scan_result # results, call # calls))
         else (results, calls))"

text \<open>
  \<^verbatim>\<open>scan_host\<close>: the results, and the scanner calls made (the port check first).
\<close>

definition scan_host ::
  "pystr \<Rightarrow> pystr \<Rightarrow> int list \<Rightarrow> pystr list \<Rightarrow> scanner \<Rightarrow> scan_result list \<times> scanner_call list" where
  "scan_host target ports smb_ports smb_scripts scanner =
     (let open_ports = check_port_open scanner target ports
      in if open_ports = [] then ([], [(target, ports, py ''-Pn'')])
         else let (results, calls) = smb_loop scanner target open_ports smb_scripts smb_ports
              in (results, (target, ports, py ''-Pn'') # calls))"

definition smb_ports :: "int list" where
  "smb_ports = [139, 445]"

definition smb_scripts :: "pystr list" where
  "smb_scripts =
     [py ''smb-enum-shares'', py ''smb-enum-users'', py ''smb-enum-sessions'',
      py ''smb-os-discovery'']"

text \<open>\<^verbatim>\<open>process_target\<close> inside \<^verbatim>\<open>smb_scan_parallel\<close>.\<close>

definition process_target :: "scanner \<Rightarrow> pystr \<Rightarrow> pystr \<Rightarrow> scan_result list \<times> scanner_call list" where
  "process_target scanner ports target = scan_host target ports smb_ports smb_scripts scanner"

text \<open>
  \<^verbatim>\<open>smb_scan_parallel\<close>: the results of all targets, in the order of the targets; each is
  written to the output file on a line of its own.
\<close>

definition smb_scan_parallel :: "scanner \<Rightarrow> pystr list \<Rightarrow> pystr \<Rightarrow> scan_result list" where
  "smb_scan_parallel scanner targets ports =
     concat (map (\<lambda>target. fst (process_target scanner ports target)) targets)"

text \<open>
  A scanner on which the enumeration is run below. Its port check reports port 139 closed
  and port 445 open on every host. A script scan is one call for all scripts named in
  \<^verbatim>\<open>--script\<close>: the call raises as soon as one of the scripts cannot be run, and returns
  the outputs by script name otherwise. Here \<^verbatim>\<open>smb-enum-users\<close> cannot be run and
  \<^verbatim>\<open>smb-os-discovery\<close> has a payload.
\<close>

definition script_outcome :: "pystr \<Rightarrow> error + pystr" where
  "script_outcome name =
     (if name = py ''smb-enum-users'' then Inl PortScannerError
      else if name = py ''smb-os-discovery'' then Inr (py ''OS: Windows 10'')
      else Inr [])"

fun run_scripts :: "pystr list \<Rightarrow> error + (pystr \<times> pystr) list" where
  "run_scripts [] = Inr []"
| "run_scripts (name # names) =
     (case script_outcome name of
        Inl e \<Rightarrow> Inl e
      | Inr out \<Rightarrow>
          (case run_scripts names of Inl e \<Rightarrow> Inl e | Inr outs \<Rightarrow> Inr ((name, out) # outs)))"

definition one_call_scanner :: scanner where
  "one_call_scanner hosts ports arguments =
     (if arguments = py ''-Pn''
      then Inr \<lparr>scan = [(hosts, [(139, \<lparr>state = py ''closed'', script = []\<rparr>),
                                   (445, \<lparr>state = py ''open'', script = []\<rparr>)])]\<rparr>
      else (case run_scripts (split_char 44 (drop 9 arguments)) of
              Inl e \<Rightarrow> Inl e
            | Inr outs \<Rightarrow>
                Inr \<lparr>scan = [(hosts, [(445, \<lparr>state = py ''open'', script = outs\<rparr>)])]\<rparr>))"

section \<open>Auxiliary notions for the proofs\<close>

text \<open>What the scan of a subnet appends to the output file: nothing unless it completes.\<close>

definition appended :: "prober \<Rightarrow> int \<Rightarrow> pystr \<Rightarrow> pystr" where
  "appended nmap timeout subnet =
     (case nmap subnet timeout of
        Completed stdout \<Rightarrow> scan_entry subnet stdout
      | TimedOut \<Rightarrow> []
      | Failed \<Rightarrow> [])"

text \<open>
  The number of hosts a host table lists for a subnet, and the number of lines that
  contribute a host to a subnet.
\<close>

definition host_count :: "host_table \<Rightarrow> pystr \<Rightarrow> nat" where
  "host_count t subnet = (case map_of t subnet of None \<Rightarrow> 0 | Some hosts \<Rightarrow> length hosts)"

definition line_count :: "pystr \<Rightarrow> pystr list \<Rightarrow> nat" where
  "line_count subnet ls =
     length (filter (\<lambda>l. map_option fst (report_line l) = Some subnet) ls)"

text \<open>
  A probe fixture in which the scans of 10.0.2.0/24 and of 10.0.3.0/24 complete and
  report two hosts each, and every other scan times out; and the text that the scan of
  10.0.2.0/24 appends when it reports the one host 10.0.2.5.
\<close>

definition two_subnet_prober :: prober where
  "two_subnet_prober subnet timeout =
     (if subnet = py ''10.0.2.0/24''
      then Completed (py ''Nmap scan report for 10.0.2.5'' @ [10]
                      @ py ''Nmap scan report for 10.0.2.9'' @ [10])
      else if subnet = py ''10.0.3.0/24''
      then Completed (py ''Nmap scan report for 10.0.3.5'' @ [10]
                      @ py ''Nmap scan report for 10.0.3.9'' @ [10])
      else TimedOut)"

definition one_host_entry :: pystr where
  "one_host_entry =
     scan_entry (py ''10.0.2.0/24'')
       (py ''Nmap scan report for 10.0.2.5'' @ [10] @ py ''Host is up.'' @ [10])"

section \<open>Arithmetic of masks\<close>

lemma ALL_ONES_mask: "ALL_ONES = mask 32"
  by (simp add: ALL_ONES_def mask_eq_exp_minus_1)

lemma ip_int_from_prefix_eq: "p \<le> 32 \<Longrightarrow> ip_int_from_prefix p = 2 ^ 32 - 2 ^ (32 - p)"
proof -
  assume le: "p \<le> 32"
  define m where "m = 32 - p"
  have m: "m \<le> 32" by (simp add: m_def)
  have d: "drop_bit p (mask 32 :: nat) = mask m"
    by (simp add: drop_bit_mask_eq m_def)
  have "(mask 32 :: nat) XOR mask m = push_bit m (mask (32 - m))"
    using m by (intro bit_eqI) (auto simp: bit_simps)
  also have "\<dots> = 2 ^ m * (2 ^ (32 - m) - 1)"
    by (simp add: push_bit_eq_mult mask_eq_exp_minus_1)
  also have "\<dots> = 2 ^ 32 - 2 ^ m"
    using m by (simp add: algebra_simps flip: power_add)
  finally show ?thesis
    by (simp add: ip_int_from_prefix_def ALL_ONES_mask d m_def)
qed

lemma netmask_eq: "prefixlen n \<le> 32 \<Longrightarrow> netmask n = 2 ^ 32 - 2 ^ (32 - prefixlen n)"
  by (simp add: netmask_def ip_int_from_prefix_eq)

lemma hostmask_eq: "prefixlen n \<le> 32 \<Longrightarrow> hostmask n = 2 ^ (32 - prefixlen n) - 1"
proof -
  assume le: "prefixlen n \<le> 32"
  have cancel: "(a XOR d) XOR a = d" for a d :: nat
    by (rule bit_eqI) (auto simp: bit_xor_iff)
  have "hostmask n = drop_bit (prefixlen n) (mask 32 :: nat)"
    unfolding hostmask_def netmask_def ip_int_from_prefix_def ALL_ONES_mask by (rule cancel)
  also have "\<dots> = mask (32 - prefixlen n)"
    by (simp add: drop_bit_mask_eq)
  finally show ?thesis
    by (simp add: mask_eq_exp_minus_1)
qed

lemma or_hostmask: "2 ^ k dvd (a::nat) \<Longrightarrow> a OR (2 ^ k - 1) = a + 2 ^ k - 1"
proof -
  assume dv: "2 ^ k dvd a"
  have "a AND mask k = 0" using dv
    by (simp add: take_bit_eq_0_iff flip: take_bit_eq_mask)
  then have "a + mask k = a OR mask k"
    by (rule disjunctive_add_eq_or)
  then show ?thesis by (simp add: mask_eq_exp_minus_1)
qed

lemma broadcast_eq:
  assumes p: "prefixlen n \<le> 32" and al: "2 ^ (32 - prefixlen n) dvd network_address n"
  shows "broadcast_address n + 1 = network_address n + 2 ^ (32 - prefixlen n)"
proof -
  have "broadcast_address n = network_address n OR (2 ^ (32 - prefixlen n) - 1)"
    by (simp only: broadcast_address_def hostmask_eq[OF p])
  also have "\<dots> = network_address n + 2 ^ (32 - prefixlen n) - 1"
    by (rule or_hostmask[OF al])
  finally show ?thesis by simp
qed

section \<open>The subnets of a network in closed form\<close>

lemma py_range_exact:
  "0 < step \<Longrightarrow>
   py_range start (start + n * step) step = Inr (map (\<lambda>k. start + k * step) [0 ..< n])"
proof -
  assume s: "0 < step"
  have "(n * step + step - 1) div step = n"
    using s by (intro div_nat_eqI) (simp_all add: algebra_simps)
  then show ?thesis using s by (simp add: py_range_def)
qed

lemma subnets_eq:
  assumes p: "prefixlen n < 32" and pq: "prefixlen n \<le> q" and q: "q \<le> 32"
    and al: "2 ^ (32 - prefixlen n) dvd network_address n"
  shows "subnets n q =
    Inr (map (\<lambda>k. \<lparr>network_address = network_address n + k * 2 ^ (32 - q), prefixlen = q\<rparr>)
          [0 ..< 2 ^ (q - prefixlen n)])"
proof -
  define p where "p = prefixlen n"
  define a where "a = network_address n"
  have p': "p < 32" "p \<le> q" using p pq by (simp_all add: p_def)
  have hm: "hostmask n + 1 = 2 ^ (32 - p)"
    using p by (simp add: hostmask_eq p_def)
  have step: "drop_bit (q - p) (hostmask n + 1) = (2::nat) ^ (32 - q)"
    using p' q unfolding hm by (simp add: drop_bit_exp_eq)
  have "broadcast_address n + 1 = a + 2 ^ (32 - p)"
    unfolding a_def p_def using p al by (intro broadcast_eq) simp_all
  also have "(2::nat) ^ (32 - p) = 2 ^ (q - p) * 2 ^ (32 - q)"
    using p' q by (simp flip: power_add)
  finally have stop: "broadcast_address n + 1 = a + 2 ^ (q - p) * 2 ^ (32 - q)" .
  have rng: "py_range a (broadcast_address n + 1) (drop_bit (q - p) (hostmask n + 1)) =
      Inr (map (\<lambda>k. a + k * 2 ^ (32 - q)) [0 ..< 2 ^ (q - p)])"
    unfolding step stop by (rule py_range_exact) simp
  have "subnets n q =
     (case py_range a (broadcast_address n + 1) (drop_bit (q - p) (hostmask n + 1)) of
        Inl e \<Rightarrow> Inl e
      | Inr addrs \<Rightarrow> Inr (map (\<lambda>new_addr. \<lparr>network_address = new_addr, prefixlen = q\<rparr>) addrs))"
    using p' q
    by (simp add: subnets_def max_prefixlen_def Let_def p_def a_def cong: sum.case_cong)
  also have "\<dots> = Inr (map (\<lambda>k. \<lparr>network_address = a + k * 2 ^ (32 - q), prefixlen = q\<rparr>)
          [0 ..< 2 ^ (q - p)])"
    unfolding rng by (simp add: comp_def)
  finally show ?thesis by (simp only: a_def p_def)
qed

lemma concat_blocks:
  "concat (map (\<lambda>i. map (\<lambda>k. f (i * m + k)) [0 ..< m]) [0 ..< n]) = map f [0 ..< n * m]"
proof (induction n)
  case 0
  then show ?case by simp
next
  case (Suc n)
  have "[n * m ..< m + n * m] = map (\<lambda>k. k + n * m) [0 ..< m]"
    by (rule map_add_upt[symmetric])
  then have blk: "map f [n * m ..< n * m + m] = map (\<lambda>k. f (n * m + k)) [0 ..< m]"
    by (simp only: add.commute[of "n * m" m] map_map comp_def) (simp add: add.commute)
  have "map f [0 ..< n * m + m] = map f [0 ..< n * m] @ map f [n * m ..< n * m + m]"
    by (simp only: upt_add_eq_append[OF le0] map_append)
  then show ?case using Suc blk by (simp add: add.commute)
qed

section \<open>The submission loops\<close>

lemma skip_unit_cases:
  "start \<noteq> Some Net6 \<Longrightarrow> skip_unit start u = Inr (\<not> (skip_unit start u = Inr False))"
  by (auto simp: skip_unit_def split: option.splits ip_net.splits)

lemma submit_24_filter:
  "start \<noteq> Some Net6 \<Longrightarrow>
   submit_24 start xs = Inr (filter (\<lambda>u. skip_unit start u = Inr False) xs)"
proof (induction xs)
  case Nil
  then show ?case by simp
next
  case (Cons u xs)
  then show ?case
    by (cases "skip_unit start u = Inr False")
       (auto simp: skip_unit_def split: option.splits ip_net.splits)
qed

lemma submit_24_Net6: "xs \<noteq> [] \<Longrightarrow> submit_24 (Some Net6) xs = Inl TypeError"
  by (cases xs) (simp_all add: skip_unit_def)

lemma submit_16_filter:
  assumes "start \<noteq> Some Net6" and "\<And>x. x \<in> set xs \<Longrightarrow> subnets x 24 = Inr (h x)"
  shows "submit_16 start xs =
    Inr (filter (\<lambda>u. skip_unit start u = Inr False) (concat (map h xs)))"
  using assms(2)
proof (induction xs)
  case Nil
  then show ?case by simp
next
  case (Cons x xs)
  then show ?case by (simp add: submit_24_filter[OF assms(1)])
qed

lemma submit_16_Net6:
  assumes "subnets x 24 = Inr s24" and "s24 \<noteq> []"
  shows "submit_16 (Some Net6) (x # xs) = Inl TypeError"
  using assms by (simp add: submit_24_Net6)

text \<open>Every /24 unit of a network whose prefix is at most 16, in the order of the loops.\<close>

lemma nested_subnets_eq:
  assumes p: "prefixlen n \<le> 16" and al: "2 ^ (32 - prefixlen n) dvd network_address n"
  shows "\<exists>s16 h. subnets n 16 = Inr s16 \<and> s16 \<noteq> [] \<and> (\<forall>x \<in> set s16. subnets x 24 = Inr (h x) \<and> h x \<noteq> [])
     \<and> concat (map h s16) =
        map (\<lambda>k. \<lparr>network_address = network_address n + k * 2 ^ 8, prefixlen = 24\<rparr>)
          [0 ..< 2 ^ (24 - prefixlen n)]"
proof -
  define a where "a = network_address n"
  define s16 where "s16 = map (\<lambda>i. \<lparr>network_address = a + i * 2 ^ 16, prefixlen = 16\<rparr>)
          [0 ..< 2 ^ (16 - prefixlen n)]"
  define h where "h = (\<lambda>x::network. map (\<lambda>k. \<lparr>network_address = network_address x + k * 2 ^ 8, prefixlen = 24\<rparr>)
          [0 ..< 2 ^ 8])"
  have outer: "subnets n 16 = Inr s16"
    using subnets_eq[of n 16] p al by (simp add: s16_def a_def)
  have dv: "(2::nat) ^ 16 dvd a"
  proof -
    have "(2::nat) ^ 16 dvd 2 ^ (32 - prefixlen n)"
      using p by (intro le_imp_power_dvd) simp
    then show ?thesis using al unfolding a_def by (rule dvd_trans)
  qed
  have inner: "subnets x 24 = Inr (h x) \<and> h x \<noteq> []" if "x \<in> set s16" for x
  proof -
    from that obtain i where x: "x = \<lparr>network_address = a + i * 2 ^ 16, prefixlen = 16\<rparr>"
      by (auto simp: s16_def)
    have "2 ^ (32 - prefixlen x) dvd network_address x"
      using dv by (simp add: x)
    then show ?thesis
      using subnets_eq[of x 24] by (simp add: x h_def)
  qed
  have "concat (map h s16) =
      concat (map (\<lambda>i. map (\<lambda>k. \<lparr>network_address = a + (i * 2 ^ 8 + k) * 2 ^ 8, prefixlen = 24\<rparr>)
         [0 ..< 2 ^ 8]) [0 ..< 2 ^ (16 - prefixlen n)])"
    by (simp add: s16_def h_def comp_def algebra_simps)
  also have "\<dots> = map (\<lambda>k. \<lparr>network_address = a + k * 2 ^ 8, prefixlen = 24\<rparr>)
      [0 ..< 2 ^ (16 - prefixlen n) * 2 ^ 8]"
    by (rule concat_blocks)
  also have "(2::nat) ^ (16 - prefixlen n) * 2 ^ 8 = 2 ^ (24 - prefixlen n)"
  proof -
    have "24 - prefixlen n = (16 - prefixlen n) + 8" using p by simp
    then show ?thesis by (simp only: power_add)
  qed
  finally have "concat (map h s16) =
        map (\<lambda>k. \<lparr>network_address = network_address n + k * 2 ^ 8, prefixlen = 24\<rparr>)
          [0 ..< 2 ^ (24 - prefixlen n)]" by (simp only: a_def)
  moreover have "s16 \<noteq> []" by (simp add: s16_def)
  ultimately show ?thesis using outer inner by blast
qed

lemma submit_units_eq:
  assumes p: "prefixlen n \<le> 16" and al: "2 ^ (32 - prefixlen n) dvd network_address n"
    and st: "start \<noteq> Some Net6"
  shows "submit_units start n =
    Inr (filter (\<lambda>u. skip_unit start u = Inr False)
      (map (\<lambda>k. \<lparr>network_address = network_address n + k * 2 ^ 8, prefixlen = 24\<rparr>)
          [0 ..< 2 ^ (24 - prefixlen n)]))"
proof -
  from nested_subnets_eq[OF p al] obtain s16 h where
    o: "subnets n 16 = Inr s16" and i: "\<And>x. x \<in> set s16 \<Longrightarrow> subnets x 24 = Inr (h x)"
    and c: "concat (map h s16) =
        map (\<lambda>k. \<lparr>network_address = network_address n + k * 2 ^ 8, prefixlen = 24\<rparr>)
          [0 ..< 2 ^ (24 - prefixlen n)]"
    by blast
  show ?thesis
    by (simp only: submit_units_def o sum.case submit_16_filter[OF st i] c)
qed

lemma submit_units_Net6:
  assumes p: "prefixlen n \<le> 16" and al: "2 ^ (32 - prefixlen n) dvd network_address n"
  shows "submit_units (Some Net6) n = Inl TypeError"
proof -
  from nested_subnets_eq[OF p al] obtain s16 h where
    o: "subnets n 16 = Inr s16" and ne: "s16 \<noteq> []"
    and i: "\<And>x. x \<in> set s16 \<Longrightarrow> subnets x 24 = Inr (h x) \<and> h x \<noteq> []"
    by blast
  from ne obtain x xs where s: "s16 = x # xs" by (cases s16) auto
  have "subnets x 24 = Inr (h x)" "h x \<noteq> []" using i[of x] s by simp_all
  then have "submit_16 (Some Net6) (x # xs) = Inl TypeError"
    by (rule submit_16_Net6)
  then show ?thesis
    by (simp only: submit_units_def o sum.case s)
qed

lemma two_level_units_eq:
  assumes p: "prefixlen n \<le> 16" and al: "2 ^ (32 - prefixlen n) dvd network_address n"
  shows "two_level_units n =
    Inr (map (\<lambda>k. \<lparr>network_address = network_address n + k * 2 ^ 8, prefixlen = 24\<rparr>)
          [0 ..< 2 ^ (24 - prefixlen n)])"
  unfolding two_level_units_def
  by (subst submit_units_eq[OF p al]) (simp_all add: skip_unit_def)

lemma single_level_units_eq:
  assumes p: "prefixlen n \<le> 24" and al: "2 ^ (32 - prefixlen n) dvd network_address n"
  shows "single_level_units n =
    Inr (map (\<lambda>k. \<lparr>network_address = network_address n + k * 2 ^ 8, prefixlen = 24\<rparr>)
          [0 ..< 2 ^ (24 - prefixlen n)])"
  using subnets_eq[of n 24] p al by (simp add: single_level_units_def)

section \<open>The partition of the base range\<close>

lemma base_units:
  "two_level_units base_network =
     Inr (map (\<lambda>k. \<lparr>network_address = 167772160 + k * 256, prefixlen = 24\<rparr>) [0 ..< 65536])"
proof -
  have "(2::nat) ^ (32 - prefixlen base_network) dvd network_address base_network"
    by (simp add: base_network_def)
  from two_level_units_eq[OF _ this] show ?thesis
    by (simp add: base_network_def)
qed

lemma contains_unit:
  "contains \<lparr>network_address = 167772160 + k * 256, prefixlen = 24\<rparr> a
     \<longleftrightarrow> 167772160 + k * 256 \<le> a \<and> a < 167772160 + k * 256 + 256"
proof -
  let ?u = "\<lparr>network_address = 167772160 + k * 256, prefixlen = 24\<rparr>"
  have "broadcast_address ?u + 1 = network_address ?u + 2 ^ (32 - prefixlen ?u)"
    by (rule broadcast_eq) simp_all
  then have "broadcast_address ?u + 1 = 167772160 + k * 256 + 256" by simp
  then show ?thesis unfolding contains_def by simp linarith
qed

lemma contains_base:
  "contains base_network a \<longleftrightarrow> 167772160 \<le> a \<and> a < 184549376"
proof -
  have "broadcast_address base_network + 1
      = network_address base_network + 2 ^ (32 - prefixlen base_network)"
    by (rule broadcast_eq) (simp_all add: base_network_def)
  then have "broadcast_address base_network + 1 = 184549376"
    by (simp add: base_network_def)
  then show ?thesis unfolding contains_def by (simp add: base_network_def) linarith
qed

lemma block_index: "(j * 256 \<le> b \<and> b < j * 256 + 256) \<longleftrightarrow> j = b div 256" for b j :: nat
proof
  assume "j * 256 \<le> b \<and> b < j * 256 + 256"
  then have "b div 256 = j"
    by (intro div_nat_eqI) (simp_all add: mult.commute)
  then show "j = b div 256" by simp
next
  assume j: "j = b div 256"
  have "b div 256 * 256 \<le> b"
    by (rule div_times_less_eq_dividend)
  moreover have "b < 256 + b div 256 * 256"
    by (rule dividend_less_div_times) simp
  ultimately show "j * 256 \<le> b \<and> b < j * 256 + 256"
    unfolding j by (simp add: add.commute)
qed

lemma unit_unique:
  assumes "contains base_network a"
  shows "\<exists>!u. u \<in> set (map (\<lambda>k. \<lparr>network_address = 167772160 + k * 256, prefixlen = 24\<rparr>)
                        [0 ..< 65536])
     \<and> contains u a"
proof -
  let ?f = "\<lambda>k. \<lparr>network_address = 167772160 + k * 256, prefixlen = 24\<rparr>"
  from assms have a: "167772160 \<le> a" "a < 184549376" by (simp_all add: contains_base)
  define b where "b = a - 167772160"
  define k where "k = b div 256"
  have ab: "a = 167772160 + b" using a by (simp add: b_def)
  have k: "k < 65536" using a unfolding k_def b_def by simp
  have ck: "contains (?f j) a \<longleftrightarrow> j = k" for j
    unfolding contains_unit k_def ab using block_index[of j b] by (simp add: add.commute)
  show ?thesis
  proof (rule ex1I[of _ "?f k"])
    show "?f k \<in> set (map ?f [0 ..< 65536]) \<and> contains (?f k) a"
      using k ck by simp
  next
    fix u assume "u \<in> set (map ?f [0 ..< 65536]) \<and> contains u a"
    then obtain j where "u = ?f j" "contains (?f j) a" by auto
    then show "u = ?f k" using ck by simp
  qed
qed

lemma units_sorted:
  "sorted_wrt net_lt
     (map (\<lambda>k. \<lparr>network_address = 167772160 + k * 256, prefixlen = 24\<rparr>) [0 ..< n])"
proof -
  have "sorted_wrt (<) [0 ..< n]" by (rule sorted_wrt_upt)
  then have "sorted_wrt (\<lambda>i j. net_lt \<lparr>network_address = 167772160 + i * 256, prefixlen = 24\<rparr>
                 \<lparr>network_address = 167772160 + j * 256, prefixlen = 24\<rparr>) [0 ..< n]"
    by (rule sorted_wrt_mono_rel[rotated]) (simp add: net_lt_def)
  then show ?thesis by (simp add: sorted_wrt_map)
qed

lemma units_distinct:
  "distinct (map (\<lambda>k. \<lparr>network_address = 167772160 + k * 256, prefixlen = 24\<rparr>) [0 ..< n])"
  by (simp add: distinct_map inj_on_def)

text \<open>
  Claim C1. The partition of 10.0.0.0/8 by the nested loops of \<^verbatim>\<open>scan_networks\<close> does not
  raise and has exactly 65536 units; the units are strictly ascending in the order of
  networks, hence without duplicates; and every address of the base range lies in exactly
  one unit.
\<close>

theorem partition_total_exhaustive:
  "\<exists>units. two_level_units base_network = Inr units
     \<and> length units = 65536
     \<and> sorted_wrt net_lt units
     \<and> distinct units
     \<and> (\<forall>a. contains base_network a \<longrightarrow> (\<exists>!u. u \<in> set units \<and> contains u a))"
proof (intro exI conjI allI impI)
  let ?units = "map (\<lambda>k. \<lparr>network_address = 167772160 + k * 256, prefixlen = 24\<rparr>) [0 ..< 65536]"
  show "two_level_units base_network = Inr ?units"
    by (rule base_units)
  show "length ?units = 65536"
    by (simp only: length_map length_upt diff_zero)
  show "sorted_wrt net_lt ?units"
    by (rule units_sorted)
  show "distinct ?units"
    by (rule units_distinct)
  show "\<exists>!u. u \<in> set ?units \<and> contains u a" if "contains base_network a" for a
    using that by (rule unit_unique)
qed

theorem partition_total_exhaustive_witness:
  "contains base_network 167837955
   \<and> (\<exists>units. two_level_units base_network = Inr units
        \<and> (\<exists>!u. u \<in> set units \<and> contains u 167837955))"
proof -
  have c: "contains base_network 167837955" by (simp add: contains_base)
  from partition_total_exhaustive obtain units where
    "two_level_units base_network = Inr units"
    "\<forall>a. contains base_network a \<longrightarrow> (\<exists>!u. u \<in> set units \<and> contains u a)"
    by blast
  with c show ?thesis by blast
qed

text \<open>
  Claim C5. For a /8 range, the two-level enumeration of the source (through the /16
  subnets) and the single-level partition directly into /24 units give the same sequence
  of units, in the same order.
\<close>

theorem two_level_equals_single_level:
  assumes "prefixlen n = 8" and "2 ^ 24 dvd network_address n"
  shows "\<exists>units. two_level_units n = Inr units \<and> single_level_units n = Inr units"
  using assms by (simp add: two_level_units_eq single_level_units_eq)

theorem two_level_equals_single_level_witness:
  "prefixlen base_network = 8 \<and> 2 ^ 24 dvd network_address base_network
   \<and> (\<exists>units. two_level_units base_network = Inr units
         \<and> single_level_units base_network = Inr units)"
proof -
  have h: "prefixlen base_network = 8" "2 ^ 24 dvd network_address base_network"
    by (simp_all add: base_network_def)
  from two_level_equals_single_level[OF h] h show ?thesis by blast
qed

section \<open>Evaluation on concrete inputs\<close>

text \<open>The defining equations that the simplifier needs to run the string functions.\<close>

lemmas py_eval = py_def isspace_def strip_where_def strip_def strip_char_def startswith_def
  replace_def linebreak_def splitlines_def read_text_def str_nat.simps str_int_def
  ascii_digits_def digits_value_def max_prefixlen_def ALL_ONES_def ip_int_from_prefix_def
  parse_octet_def from_bytes_big_def ip_int_from_string_def IPv4Address_def
  split_addr_prefix_def prefix_from_prefix_string_def count_righthand_zero_bits_def
  prefix_from_ip_int_def prefix_from_ip_string_def make_netmask_def IPv4Network_def
  str_address_def str_network_def ip_network_def load_progress_def start_network_of_def
  no_ipv6_def Let_def

section \<open>Runs of the sweep\<close>

lemma base_submit:
  assumes "start \<noteq> Some Net6"
  shows "submit_units start base_network =
    Inr (filter (\<lambda>u. skip_unit start u = Inr False)
      (map (\<lambda>k. \<lparr>network_address = 167772160 + k * 256, prefixlen = 24\<rparr>) [0 ..< 65536]))"
proof -
  have "(2::nat) ^ (32 - prefixlen base_network) dvd network_address base_network"
    by (simp add: base_network_def)
  from submit_units_eq[OF _ this assms] show ?thesis
    by (simp add: base_network_def)
qed

lemma base_submit_Net6: "submit_units (Some Net6) base_network = Inl TypeError"
  by (rule submit_units_Net6) (simp_all add: base_network_def)

lemma save_completed_eq: "save_completed f xs = map Some xs"
  by (induction xs arbitrary: f) (simp_all add: save_progress_def Let_def)

lemma scan_networks_start_error:
  assumes "start_network_of v6 (load_progress (progress_file fs)) = Inl e"
  shows "scan_networks v6 nmap sched timeout fs =
    \<lparr>files_after = fs, submitted = [], progress_writes = [], reports = Inl e\<rparr>"
  using assms by (simp add: scan_networks_def)

lemma scan_networks_submit_error:
  assumes "start_network_of v6 (load_progress (progress_file fs)) = Inr start"
    and "submit_units start base_network = Inl e"
  shows "scan_networks v6 nmap sched timeout fs =
    \<lparr>files_after = fs, submitted = [], progress_writes = [], reports = Inl e\<rparr>"
  using assms by (simp add: scan_networks_def)

lemma scan_networks_submitted:
  assumes "start_network_of v6 (load_progress (progress_file fs)) = Inr start"
    and "submit_units start base_network = Inr subs"
  shows "submitted (scan_networks v6 nmap sched timeout fs) = subs"
    and "progress_writes (scan_networks v6 nmap sched timeout fs) =
           map (\<lambda>u. Some (str_network u)) (completion_order sched subs)"
    and "nmap_output_file (files_after (scan_networks v6 nmap sched timeout fs)) =
           run_scans nmap timeout (nmap_output_file fs) (map str_network (write_order sched subs))"
    and "progress_file (files_after (scan_networks v6 nmap sched timeout fs)) =
           last (progress_file fs # map (\<lambda>u. Some (str_network u)) (completion_order sched subs))"
    and "reports (scan_networks v6 nmap sched timeout fs) =
           (case parse_nmap_output
                   (run_scans nmap timeout (nmap_output_file fs)
                      (map str_network (write_order sched subs))) of
              Inl e \<Rightarrow> Inl e
            | Inr (active_subnets, active_hosts) \<Rightarrow>
                Inr (save_to_file active_subnets, hosts_report active_hosts))"
  using assms
  by (simp_all add: scan_networks_def Let_def save_completed_eq comp_def
      split: sum.splits prod.splits)

lemma map_upt_member: "k < n \<Longrightarrow> f k \<in> set (map f [0 ..< n])"
  by simp

lemma unit_in_full:
  "k < 65536 \<Longrightarrow>
   \<lparr>network_address = 167772160 + k * 256, prefixlen = 24\<rparr>
     \<in> set (map (\<lambda>k. \<lparr>network_address = 167772160 + k * 256, prefixlen = 24\<rparr>) [0 ..< 65536])"
  by (rule map_upt_member)

lemma set_filter_not: "\<not> P U \<Longrightarrow> set (filter (\<lambda>u. \<not> P u) xs) = set xs - {u. P u}
    \<and> (U \<in> set xs \<longrightarrow> U \<in> set (filter (\<lambda>u. \<not> P u) xs))"
  by auto

lemma base_submit_Net4:
  "submit_units (Some (Net4 U)) base_network =
     Inr (filter (\<lambda>u. \<not> net_lt u U)
       (map (\<lambda>k. \<lparr>network_address = 167772160 + k * 256, prefixlen = 24\<rparr>) [0 ..< 65536]))"
proof -
  have flt: "(\<lambda>u. skip_unit (Some (Net4 U)) u = Inr False) = (\<lambda>u. \<not> net_lt u U)"
    by (simp add: skip_unit_def)
  show ?thesis unfolding flt[symmetric] by (rule base_submit) simp
qed

theorem resume_skips_units_before_marker:
  assumes "start_network_of v6 (load_progress (progress_file fs)) = Inr (Some (Net4 U))"
  shows "\<exists>full. two_level_units base_network = Inr full
     \<and> submitted (scan_networks v6 nmap sched timeout fs) = filter (\<lambda>u. \<not> net_lt u U) full
     \<and> set (submitted (scan_networks v6 nmap sched timeout fs)) = set full - {u. net_lt u U}
     \<and> (U \<in> set full \<longrightarrow> U \<in> set (submitted (scan_networks v6 nmap sched timeout fs)))"
proof -
  define full where
    "full = map (\<lambda>k. \<lparr>network_address = 167772160 + k * 256, prefixlen = 24\<rparr>) [0 ..< 65536]"
  have f: "two_level_units base_network = Inr full"
    unfolding full_def by (rule base_units)
  have "submit_units (Some (Net4 U)) base_network = Inr (filter (\<lambda>u. \<not> net_lt u U) full)"
    unfolding full_def by (rule base_submit_Net4)
  from scan_networks_submitted(1)[OF assms this]
  have s: "submitted (scan_networks v6 nmap sched timeout fs) = filter (\<lambda>u. \<not> net_lt u U) full" .
  have "\<not> net_lt U U" by (simp add: net_lt_def)
  from set_filter_not[of "\<lambda>u. net_lt u U" U full, OF this]
  have "set (submitted (scan_networks v6 nmap sched timeout fs)) = set full - {u. net_lt u U}"
    and "U \<in> set full \<longrightarrow> U \<in> set (submitted (scan_networks v6 nmap sched timeout fs))"
    unfolding s by blast+
  with f s show ?thesis by blast
qed

theorem resume_skips_units_before_marker_witness:
  "start_network_of no_ipv6
      (load_progress (progress_file \<lparr>progress_file = Some (py ''10.0.1.0/24''), nmap_output_file = None\<rparr>))
     = Inr (Some (Net4 \<lparr>network_address = 167772416, prefixlen = 24\<rparr>))
   \<and> (\<exists>full. two_level_units base_network = Inr full
         \<and> \<lparr>network_address = 167772416, prefixlen = 24\<rparr> \<in> set full)
   \<and> \<lparr>network_address = 167772416, prefixlen = 24\<rparr>
       \<in> set (submitted (scan_networks no_ipv6 always_timeout in_order 60
            \<lparr>progress_file = Some (py ''10.0.1.0/24''), nmap_output_file = None\<rparr>))"
proof -
  define U where "U = \<lparr>network_address = 167772416, prefixlen = 24\<rparr>"
  define fs where "fs = \<lparr>progress_file = Some (py ''10.0.1.0/24''), nmap_output_file = None\<rparr>"
  have h: "start_network_of no_ipv6 (load_progress (progress_file fs)) = Inr (Some (Net4 U))"
    unfolding U_def fs_def by (simp add: py_eval)
  have u1: "U = \<lparr>network_address = 167772160 + 1 * 256, prefixlen = 24\<rparr>"
    by (simp add: U_def)
  have m: "U \<in> set (map (\<lambda>k. \<lparr>network_address = 167772160 + k * 256, prefixlen = 24\<rparr>)
                            [0 ..< 65536])"
    unfolding u1 by (rule unit_in_full) simp
  from resume_skips_units_before_marker[OF h, of always_timeout in_order 60]
  obtain full where f: "two_level_units base_network = Inr full"
    and i: "U \<in> set full \<longrightarrow>
       U \<in> set (submitted (scan_networks no_ipv6 always_timeout in_order 60 fs))"
    by blast
  from f have "full = map (\<lambda>k. \<lparr>network_address = 167772160 + k * 256, prefixlen = 24\<rparr>)
                            [0 ..< 65536]"
    by (simp only: base_units sum.inject)
  with m have "U \<in> set full" by blast
  with h f i show ?thesis unfolding U_def fs_def by blast
qed

section \<open>Loading the progress marker\<close>

lemma base_submit_None:
  "submit_units None base_network =
     Inr (map (\<lambda>k. \<lparr>network_address = 167772160 + k * 256, prefixlen = 24\<rparr>) [0 ..< 65536])"
  using base_units by (simp only: two_level_units_def)

lemma start_network_absent_or_empty:
  assumes "progress_file fs = None \<or> (\<exists>c. progress_file fs = Some c \<and> strip (read_text c) = [])"
  shows "start_network_of v6 (load_progress (progress_file fs)) = Inr None"
  using assms by (auto simp: start_network_of_def load_progress_def)

lemma start_network_malformed:
  assumes "progress_file fs = Some c" and "strip (read_text c) \<noteq> []"
    and "ip_network v6 (strip (read_text c)) = Inl e"
  shows "start_network_of v6 (load_progress (progress_file fs)) = Inl e"
  using assms by (simp add: start_network_of_def load_progress_def)

text \<open>
  Claim C7, as stated, fails for a malformed marker: with the progress file holding
  \<^verbatim>\<open>not-a-network\<close>, \<^verbatim>\<open>ip_network\<close> raises \<^verbatim>\<open>ValueError\<close>, nothing catches it, and the
  run ends before a single unit is submitted.
\<close>

theorem malformed_marker_fails:
  "reports (scan_networks no_ipv6 always_timeout in_order 60
      \<lparr>progress_file = Some (py ''not-a-network''), nmap_output_file = None\<rparr>) = Inl ValueError
   \<and> submitted (scan_networks no_ipv6 always_timeout in_order 60
      \<lparr>progress_file = Some (py ''not-a-network''), nmap_output_file = None\<rparr>) = []"
proof -
  define fs where "fs = \<lparr>progress_file = Some (py ''not-a-network''), nmap_output_file = None\<rparr>"
  have "start_network_of no_ipv6 (load_progress (progress_file fs)) = Inl ValueError"
    unfolding fs_def by (simp add: py_eval)
  from scan_networks_start_error[OF this, of always_timeout in_order 60]
  show ?thesis unfolding fs_def by simp
qed

text \<open>
  Claim C7, amended. Without a progress file, or with one that is empty or holds only
  whitespace, the load counts as no marker and the whole partition is submitted from its
  first unit. A marker that \<^verbatim>\<open>ip_network\<close> refuses is not tolerated: the exception ends the
  run, with no unit submitted and the files untouched.
\<close>

theorem load_progress_tolerance:
  "(progress_file fs = None \<or> (\<exists>c. progress_file fs = Some c \<and> strip (read_text c) = [])
      \<longrightarrow> (\<exists>full. two_level_units base_network = Inr full
             \<and> submitted (scan_networks v6 nmap sched timeout fs) = full))
   \<and> (\<forall>c e. progress_file fs = Some c \<and> strip (read_text c) \<noteq> []
             \<and> ip_network v6 (strip (read_text c)) = Inl e
      \<longrightarrow> scan_networks v6 nmap sched timeout fs =
            \<lparr>files_after = fs, submitted = [], progress_writes = [], reports = Inl e\<rparr>)"
proof (intro conjI impI allI)
  assume a: "progress_file fs = None \<or> (\<exists>c. progress_file fs = Some c \<and> strip (read_text c) = [])"
  from scan_networks_submitted(1)[OF start_network_absent_or_empty[OF a] base_submit_None]
  have "submitted (scan_networks v6 nmap sched timeout fs) =
      map (\<lambda>k. \<lparr>network_address = 167772160 + k * 256, prefixlen = 24\<rparr>) [0 ..< 65536]" .
  with base_units show "\<exists>full. two_level_units base_network = Inr full
             \<and> submitted (scan_networks v6 nmap sched timeout fs) = full"
    by blast
next
  fix c e
  assume "progress_file fs = Some c \<and> strip (read_text c) \<noteq> []
             \<and> ip_network v6 (strip (read_text c)) = Inl e"
  then have "start_network_of v6 (load_progress (progress_file fs)) = Inl e"
    by (intro start_network_malformed) blast+
  then show "scan_networks v6 nmap sched timeout fs =
            \<lparr>files_after = fs, submitted = [], progress_writes = [], reports = Inl e\<rparr>"
    by (rule scan_networks_start_error)
qed

theorem load_progress_tolerance_witness:
  "progress_file no_files = None
   \<and> (\<exists>full. two_level_units base_network = Inr full
         \<and> submitted (scan_networks no_ipv6 always_timeout in_order 60 no_files) = full)
   \<and> strip (read_text [32, 10]) = []
   \<and> (\<exists>full. two_level_units base_network = Inr full
         \<and> submitted (scan_networks no_ipv6 always_timeout in_order 60
              \<lparr>progress_file = Some [32, 10], nmap_output_file = None\<rparr>) = full)
   \<and> strip (read_text (py ''10.0.0.0/33'')) \<noteq> []
   \<and> ip_network no_ipv6 (strip (read_text (py ''10.0.0.0/33''))) = Inl ValueError
   \<and> scan_networks no_ipv6 always_timeout in_order 60
         \<lparr>progress_file = Some (py ''10.0.0.0/33''), nmap_output_file = None\<rparr> =
       \<lparr>files_after = \<lparr>progress_file = Some (py ''10.0.0.0/33''), nmap_output_file = None\<rparr>,
        submitted = [], progress_writes = [], reports = Inl ValueError\<rparr>"
proof -
  define fs2 where "fs2 = \<lparr>progress_file = Some [32, 10], nmap_output_file = None\<rparr>"
  define fs3 where "fs3 = \<lparr>progress_file = Some (py ''10.0.0.0/33''), nmap_output_file = None\<rparr>"
  have a1: "progress_file no_files = None" by (simp add: no_files_def)
  have e2: "strip (read_text [32, 10]) = []" by (simp add: py_eval)
  then have a2: "\<exists>c. progress_file fs2 = Some c \<and> strip (read_text c) = []"
    by (simp add: fs2_def)
  have n3: "strip (read_text (py ''10.0.0.0/33'')) \<noteq> []" by (simp add: py_eval)
  have i3: "ip_network no_ipv6 (strip (read_text (py ''10.0.0.0/33''))) = Inl ValueError"
    by (simp add: py_eval)
  have a3: "progress_file fs3 = Some (py ''10.0.0.0/33'')" by (simp add: fs3_def)
  note t1 = load_progress_tolerance[of no_files no_ipv6 always_timeout in_order 60]
  note t2 = load_progress_tolerance[of fs2 no_ipv6 always_timeout in_order 60]
  note t3 = load_progress_tolerance[of fs3 no_ipv6 always_timeout in_order 60]
  from t1 a1 have r1: "\<exists>full. two_level_units base_network = Inr full
         \<and> submitted (scan_networks no_ipv6 always_timeout in_order 60 no_files) = full"
    by blast
  from t2 a2 have r2: "\<exists>full. two_level_units base_network = Inr full
         \<and> submitted (scan_networks no_ipv6 always_timeout in_order 60 fs2) = full"
    by blast
  from t3 a3 n3 i3 have r3: "scan_networks no_ipv6 always_timeout in_order 60 fs3 =
       \<lparr>files_after = fs3, submitted = [], progress_writes = [], reports = Inl ValueError\<rparr>"
    by blast
  from a1 r1 e2 r2 n3 i3 r3 show ?thesis unfolding fs2_def fs3_def by blast
qed

section \<open>Progress writes\<close>

lemma perm_Nil:
  assumes "\<And>subs. mset (order subs) = mset subs"
  shows "order [] = []"
  using assms[of "[]"] by simp

lemma last_marker: "xs \<noteq> [] \<Longrightarrow> last (f # map g xs) = g (last xs)"
  by (simp add: last_map)

lemma scan_networks_cases:
  obtains (failed) e where
      "scan_networks v6 nmap sched timeout fs =
         \<lparr>files_after = fs, submitted = [], progress_writes = [], reports = Inl e\<rparr>"
  | (ran) start subs where
      "start_network_of v6 (load_progress (progress_file fs)) = Inr start"
      "submit_units start base_network = Inr subs"
proof (cases "start_network_of v6 (load_progress (progress_file fs))")
  case (Inl e)
  then show ?thesis using failed scan_networks_start_error by blast
next
  case (Inr start)
  show ?thesis
  proof (cases "submit_units start base_network")
    case (Inl e)
    with Inr show ?thesis using failed scan_networks_submit_error by blast
  next
    case Inr': (Inr subs)
    with Inr show ?thesis using ran by blast
  qed
qed

lemma take_2_rev_upt:
  "take 2 (rev (map f [0 ..< Suc (Suc m)])) = [f (Suc m), f m]"
  by simp

lemma last_rev_upt: "0 < n \<Longrightarrow> last (rev (map f [0 ..< n])) = f 0"
  by (simp add: last_rev hd_map)

lemma progress_writes_of_run:
  assumes "\<And>subs. mset (completion_order sched subs) = mset subs"
  shows "progress_writes (scan_networks v6 nmap sched timeout fs)
       = map (\<lambda>u. Some (str_network u))
           (completion_order sched (submitted (scan_networks v6 nmap sched timeout fs)))
     \<and> (submitted (scan_networks v6 nmap sched timeout fs) \<noteq> [] \<longrightarrow>
          progress_file (files_after (scan_networks v6 nmap sched timeout fs))
            = Some (str_network (last (completion_order sched
                  (submitted (scan_networks v6 nmap sched timeout fs))))))"
proof (cases v6 nmap sched timeout fs rule: scan_networks_cases)
  case (failed e)
  then show ?thesis by (simp add: perm_Nil[OF assms])
next
  case (ran start subs)
  note f = scan_networks_submitted[OF ran, of nmap sched timeout]
  have "completion_order sched subs \<noteq> []" if "subs \<noteq> []"
    using assms[of subs] that by (metis mset_zero_iff)
  then have "subs \<noteq> [] \<longrightarrow>
      last (progress_file fs # map (\<lambda>u. Some (str_network u)) (completion_order sched subs)) =
      Some (str_network (last (completion_order sched subs)))"
    using last_marker[of "completion_order sched subs" "progress_file fs" "\<lambda>u. Some (str_network u)"]
    by blast
  then show ?thesis
    unfolding f by blast
qed

lemma reverse_completion_run:
  "take 2 (progress_writes (scan_networks no_ipv6 always_timeout reverse_completion 60 no_files))
     = [Some (py ''10.255.255.0/24''), Some (py ''10.255.254.0/24'')]
   \<and> IPv4Network (py ''10.255.255.0/24'') True = Inr \<lparr>network_address = 184549120, prefixlen = 24\<rparr>
   \<and> IPv4Network (py ''10.255.254.0/24'') True = Inr \<lparr>network_address = 184548864, prefixlen = 24\<rparr>
   \<and> net_lt \<lparr>network_address = 184548864, prefixlen = 24\<rparr>
             \<lparr>network_address = 184549120, prefixlen = 24\<rparr>
   \<and> progress_file (files_after
         (scan_networks no_ipv6 always_timeout reverse_completion 60 no_files))
       = Some (py ''10.0.0.0/24'')
   \<and> IPv4Network (py ''10.0.0.0/24'') True = Inr \<lparr>network_address = 167772160, prefixlen = 24\<rparr>
   \<and> \<lparr>network_address = 184549120, prefixlen = 24\<rparr>
       \<in> set (submitted (scan_networks no_ipv6 always_timeout reverse_completion 60 no_files))
   \<and> net_lt \<lparr>network_address = 167772160, prefixlen = 24\<rparr>
             \<lparr>network_address = 184549120, prefixlen = 24\<rparr>
   \<and> \<lparr>network_address = 184548864, prefixlen = 24\<rparr>
       \<in> set (submitted (scan_networks no_ipv6 always_timeout reverse_completion 60 no_files))"
proof -
  define unit where "unit = (\<lambda>k::nat. \<lparr>network_address = 167772160 + k * 256, prefixlen = 24\<rparr>)"
  define r where "r = scan_networks no_ipv6 always_timeout reverse_completion 60 no_files"
  have st: "start_network_of no_ipv6 (load_progress (progress_file no_files)) = Inr None"
    by (simp add: no_files_def start_network_of_def load_progress_def)
  have sb: "submit_units None base_network = Inr (map unit [0 ..< 65536])"
    unfolding unit_def by (rule base_submit_None)
  note f = scan_networks_submitted[OF st sb, of always_timeout reverse_completion 60, folded r_def]
  have co: "completion_order reverse_completion (map unit [0 ..< 65536]) = rev (map unit [0 ..< 65536])"
    by (simp only: reverse_completion_def schedule.simps)
  have n: "(65536::nat) = Suc (Suc 65534)" by simp
  have "take 2 (progress_writes r)
      = map (\<lambda>u. Some (str_network u)) (take 2 (rev (map unit [0 ..< 65536])))"
    by (simp only: f(2) co take_map)
  also have "take 2 (rev (map unit [0 ..< 65536])) = [unit (Suc 65534), unit 65534]"
    unfolding n by (rule take_2_rev_upt)
  finally have w: "take 2 (progress_writes r)
      = [Some (py ''10.255.255.0/24''), Some (py ''10.255.254.0/24'')]"
    by (simp add: unit_def py_eval)
  have "progress_file (files_after r)
      = last (progress_file no_files # map (\<lambda>u. Some (str_network u)) (rev (map unit [0 ..< 65536])))"
    by (simp only: f(4) co)
  also have "\<dots> = Some (str_network (last (rev (map unit [0 ..< 65536]))))"
    by (rule last_marker) (simp only: rev_is_Nil_conv map_is_Nil_conv, simp)
  also have "last (rev (map unit [0 ..< 65536])) = unit 0"
    by (rule last_rev_upt) simp
  finally have l: "progress_file (files_after r) = Some (py ''10.0.0.0/24'')"
    by (simp add: unit_def py_eval)
  have "unit 65535 \<in> set (map unit [0 ..< 65536])"
    by (rule map_upt_member) simp
  then have m: "\<lparr>network_address = 184549120, prefixlen = 24\<rparr> \<in> set (submitted r)"
    unfolding f(1) by (simp add: unit_def del: set_map)
  have "unit 65534 \<in> set (map unit [0 ..< 65536])"
    by (rule map_upt_member) simp
  then have m': "\<lparr>network_address = 184548864, prefixlen = 24\<rparr> \<in> set (submitted r)"
    unfolding f(1) by (simp add: unit_def del: set_map)
  have p: "IPv4Network (py ''10.255.255.0/24'') True = Inr \<lparr>network_address = 184549120, prefixlen = 24\<rparr>"
    "IPv4Network (py ''10.255.254.0/24'') True = Inr \<lparr>network_address = 184548864, prefixlen = 24\<rparr>"
    "IPv4Network (py ''10.0.0.0/24'') True = Inr \<lparr>network_address = 167772160, prefixlen = 24\<rparr>"
    by (simp_all add: py_eval)
  have lt: "net_lt \<lparr>network_address = 184548864, prefixlen = 24\<rparr>
             \<lparr>network_address = 184549120, prefixlen = 24\<rparr>"
    "net_lt \<lparr>network_address = 167772160, prefixlen = 24\<rparr>
             \<lparr>network_address = 184549120, prefixlen = 24\<rparr>"
    by (simp_all add: net_lt_def)
  from w p lt l m m' show ?thesis unfolding r_def by blast
qed

text \<open>
  Claim C3, as stated, fails: when the futures complete in the reverse of the submission
  order, the first write stores 10.255.255.0/24 and the second replaces it by the smaller
  10.255.254.0/24; the marker left at the end is 10.0.0.0/24, below the completed unit
  10.255.255.0/24.
\<close>

theorem marker_regresses:
  "take 2 (progress_writes (scan_networks no_ipv6 always_timeout reverse_completion 60 no_files))
     = [Some (py ''10.255.255.0/24''), Some (py ''10.255.254.0/24'')]
   \<and> IPv4Network (py ''10.255.255.0/24'') True = Inr \<lparr>network_address = 184549120, prefixlen = 24\<rparr>
   \<and> IPv4Network (py ''10.255.254.0/24'') True = Inr \<lparr>network_address = 184548864, prefixlen = 24\<rparr>
   \<and> net_lt \<lparr>network_address = 184548864, prefixlen = 24\<rparr>
             \<lparr>network_address = 184549120, prefixlen = 24\<rparr>
   \<and> progress_file (files_after
         (scan_networks no_ipv6 always_timeout reverse_completion 60 no_files))
       = Some (py ''10.0.0.0/24'')
   \<and> IPv4Network (py ''10.0.0.0/24'') True = Inr \<lparr>network_address = 167772160, prefixlen = 24\<rparr>
   \<and> \<lparr>network_address = 184549120, prefixlen = 24\<rparr>
       \<in> set (submitted (scan_networks no_ipv6 always_timeout reverse_completion 60 no_files))
   \<and> net_lt \<lparr>network_address = 167772160, prefixlen = 24\<rparr>
             \<lparr>network_address = 184549120, prefixlen = 24\<rparr>"
  using reverse_completion_run by blast

text \<open>
  Claim C3, amended. Every completion overwrites the marker with the unit that has just
  completed: for every completion order the successive markers are the completed units
  in completion order, and the marker left at the end is the unit that completed last
  (so the markers ascend exactly when the units complete in ascending order).
\<close>

theorem progress_marker_follows_completion:
  assumes "\<And>subs. mset (completion_order sched subs) = mset subs"
  shows "progress_writes (scan_networks v6 nmap sched timeout fs)
       = map (\<lambda>u. Some (str_network u))
           (completion_order sched (submitted (scan_networks v6 nmap sched timeout fs)))
     \<and> (submitted (scan_networks v6 nmap sched timeout fs) \<noteq> [] \<longrightarrow>
          progress_file (files_after (scan_networks v6 nmap sched timeout fs))
            = Some (str_network (last (completion_order sched
                  (submitted (scan_networks v6 nmap sched timeout fs))))))"
  using assms by (rule progress_writes_of_run)

theorem progress_marker_follows_completion_witness:
  "(\<forall>subs. mset (completion_order reverse_completion subs) = mset subs)
   \<and> progress_writes (scan_networks no_ipv6 always_timeout reverse_completion 60 no_files)
       = map (\<lambda>u. Some (str_network u))
           (completion_order reverse_completion
              (submitted (scan_networks no_ipv6 always_timeout reverse_completion 60 no_files)))
   \<and> submitted (scan_networks no_ipv6 always_timeout reverse_completion 60 no_files) \<noteq> []
   \<and> progress_file (files_after (scan_networks no_ipv6 always_timeout reverse_completion 60 no_files))
       = Some (str_network (last (completion_order reverse_completion
            (submitted (scan_networks no_ipv6 always_timeout reverse_completion 60 no_files)))))"
proof -
  define r where "r = scan_networks no_ipv6 always_timeout reverse_completion 60 no_files"
  have h: "mset (completion_order reverse_completion subs) = mset subs" for subs
    by (simp add: reverse_completion_def)
  have st: "start_network_of no_ipv6 (load_progress (progress_file no_files)) = Inr None"
    by (simp add: no_files_def start_network_of_def load_progress_def)
  from scan_networks_submitted(1)[OF st base_submit_None, of always_timeout reverse_completion 60]
  have ne: "submitted r \<noteq> []"
    unfolding r_def by (simp only: map_is_Nil_conv) simp
  from progress_marker_follows_completion[OF h, of no_ipv6 always_timeout 60 no_files] h ne
  show ?thesis unfolding r_def by blast
qed

section \<open>Timeouts\<close>

lemma run_scans_append:
  "run_scans nmap timeout out (xs @ ys) = run_scans nmap timeout (run_scans nmap timeout out xs) ys"
  by (induction xs arbitrary: out) simp_all

lemma run_scans_skip_timeout:
  assumes "nmap s timeout = TimedOut"
  shows "run_scans nmap timeout out (xs @ s # ys) = run_scans nmap timeout out (xs @ ys)"
  using assms by (simp add: run_scans_append run_nmap_scan_def)

lemma submitted_distinct: "distinct (submitted (scan_networks v6 nmap sched timeout fs))"
proof (cases v6 nmap sched timeout fs rule: scan_networks_cases)
  case (failed e)
  then show ?thesis by simp
next
  case (ran start subs)
  show ?thesis
  proof (cases "start = Some Net6")
    case True
    with ran(2) show ?thesis by (simp add: base_submit_Net6)
  next
    case False
    from ran(2) base_submit[OF False]
    have "subs = filter (\<lambda>u. skip_unit start u = Inr False)
      (map (\<lambda>k. \<lparr>network_address = 167772160 + k * 256, prefixlen = 24\<rparr>) [0 ..< 65536])"
      by (simp only: sum.inject)
    then have "distinct subs"
      by (simp only: distinct_filter units_distinct)
    then show ?thesis by (simp only: scan_networks_submitted(1)[OF ran])
  qed
qed

text \<open>
  Claim C6, as stated, fails in its last part: the write for a timed-out unit need not
  advance the marker. When every probe times out and the futures complete in the reverse
  of the submission order, the write for the timed-out unit 10.255.254.0/24 replaces the
  marker 10.255.255.0/24 by this lower unit.
\<close>

theorem timeout_write_lowers_marker:
  "always_timeout (str_network \<lparr>network_address = 184548864, prefixlen = 24\<rparr>) 60 = TimedOut
   \<and> \<lparr>network_address = 184548864, prefixlen = 24\<rparr>
       \<in> set (submitted (scan_networks no_ipv6 always_timeout reverse_completion 60 no_files))
   \<and> str_network \<lparr>network_address = 184548864, prefixlen = 24\<rparr> = py ''10.255.254.0/24''
   \<and> take 2 (progress_writes (scan_networks no_ipv6 always_timeout reverse_completion 60 no_files))
       = [Some (py ''10.255.255.0/24''), Some (py ''10.255.254.0/24'')]
   \<and> IPv4Network (py ''10.255.255.0/24'') True = Inr \<lparr>network_address = 184549120, prefixlen = 24\<rparr>
   \<and> net_lt \<lparr>network_address = 184548864, prefixlen = 24\<rparr>
             \<lparr>network_address = 184549120, prefixlen = 24\<rparr>"
proof -
  have t: "always_timeout (str_network \<lparr>network_address = 184548864, prefixlen = 24\<rparr>) 60 = TimedOut"
    by (simp add: always_timeout_def)
  have s: "str_network \<lparr>network_address = 184548864, prefixlen = 24\<rparr> = py ''10.255.254.0/24''"
    by (simp add: py_eval)
  from t s reverse_completion_run show ?thesis by blast
qed

text \<open>
  Claim C6, amended. When the probe of a submitted unit exceeds the timeout,
  \<^verbatim>\<open>run_nmap_scan\<close> returns the empty string and leaves the output file as it was; the
  unit is scanned once only; the scans of the other units go on as if the unit had not
  been there; and the progress file is written for this unit as for every other
  submitted unit: the write sets the marker to this unit, whether or not that advances
  it.
\<close>

theorem timeout_unit_still_recorded:
  assumes "nmap (str_network u) timeout = TimedOut"
    and "\<And>subs. mset (completion_order sched subs) = mset subs"
    and "\<And>subs. mset (write_order sched subs) = mset subs"
    and "u \<in> set (submitted (scan_networks v6 nmap sched timeout fs))"
  shows "run_nmap_scan nmap (str_network u) out timeout = (out, [])
     \<and> count (mset (write_order sched (submitted (scan_networks v6 nmap sched timeout fs)))) u = 1
     \<and> run_scans nmap timeout out (xs @ str_network u # ys) = run_scans nmap timeout out (xs @ ys)
     \<and> Some (str_network u) \<in> set (progress_writes (scan_networks v6 nmap sched timeout fs))
     \<and> (\<forall>w \<in> set (submitted (scan_networks v6 nmap sched timeout fs)).
           Some (str_network w) \<in> set (progress_writes (scan_networks v6 nmap sched timeout fs)))
     \<and> length (progress_writes (scan_networks v6 nmap sched timeout fs))
         = length (submitted (scan_networks v6 nmap sched timeout fs))"
proof -
  define r where "r = scan_networks v6 nmap sched timeout fs"
  have ret: "run_nmap_scan nmap (str_network u) out timeout = (out, [])"
    using assms(1) by (simp add: run_nmap_scan_def)
  have "count (mset (submitted r)) u = 1"
    using submitted_distinct[of v6 nmap sched timeout fs] assms(4)
    unfolding r_def by (simp add: distinct_count_atmost_1)
  then have once: "count (mset (write_order sched (submitted r))) u = 1"
    by (simp only: assms(3))
  have skip: "run_scans nmap timeout out (xs @ str_network u # ys) = run_scans nmap timeout out (xs @ ys)"
    using assms(1) by (rule run_scans_skip_timeout)
  have pw: "progress_writes r = map (\<lambda>u. Some (str_network u)) (completion_order sched (submitted r))"
    using progress_writes_of_run[OF assms(2)] unfolding r_def by blast
  have "set (completion_order sched (submitted r)) = set (submitted r)"
    using assms(2)[of "submitted r"] by (rule mset_eq_setD)
  then have all: "\<forall>w \<in> set (submitted r). Some (str_network w) \<in> set (progress_writes r)"
    unfolding pw by (simp only: set_map) blast
  have len: "length (progress_writes r) = length (submitted r)"
    unfolding pw using assms(2)[of "submitted r"] by (simp only: length_map) (rule mset_eq_length)
  from all assms(4) have "Some (str_network u) \<in> set (progress_writes r)"
    unfolding r_def by blast
  with ret once skip all len show ?thesis unfolding r_def by blast
qed

theorem timeout_unit_still_recorded_witness:
  "always_timeout (str_network \<lparr>network_address = 167772160, prefixlen = 24\<rparr>) 60 = TimedOut
   \<and> (\<forall>subs. mset (completion_order in_order subs) = mset subs)
   \<and> (\<forall>subs. mset (write_order in_order subs) = mset subs)
   \<and> \<lparr>network_address = 167772160, prefixlen = 24\<rparr>
       \<in> set (submitted (scan_networks no_ipv6 always_timeout in_order 60 no_files))
   \<and> run_nmap_scan always_timeout (str_network \<lparr>network_address = 167772160, prefixlen = 24\<rparr>)
         None 60 = (None, [])
   \<and> count (mset (write_order in_order
         (submitted (scan_networks no_ipv6 always_timeout in_order 60 no_files))))
         \<lparr>network_address = 167772160, prefixlen = 24\<rparr> = 1
   \<and> Some (str_network \<lparr>network_address = 167772160, prefixlen = 24\<rparr>)
       \<in> set (progress_writes (scan_networks no_ipv6 always_timeout in_order 60 no_files))"
proof -
  define u where "u = \<lparr>network_address = 167772160, prefixlen = 24\<rparr>"
  define r where "r = scan_networks no_ipv6 always_timeout in_order 60 no_files"
  have h1: "always_timeout (str_network u) 60 = TimedOut"
    by (simp add: always_timeout_def)
  have h2: "mset (completion_order in_order subs) = mset subs" for subs
    by (simp add: in_order_def)
  have h3: "mset (write_order in_order subs) = mset subs" for subs
    by (simp add: in_order_def)
  have st: "start_network_of no_ipv6 (load_progress (progress_file no_files)) = Inr None"
    by (simp add: no_files_def start_network_of_def load_progress_def)
  have u0: "u = \<lparr>network_address = 167772160 + 0 * 256, prefixlen = 24\<rparr>"
    by (simp add: u_def)
  have "u \<in> set (map (\<lambda>k. \<lparr>network_address = 167772160 + k * 256, prefixlen = 24\<rparr>)
                   [0 ..< 65536])"
    unfolding u0 by (rule unit_in_full) simp
  then have h4: "u \<in> set (submitted r)"
    unfolding r_def
    by (simp only: scan_networks_submitted(1)[OF st base_submit_None])
  from timeout_unit_still_recorded[OF h1 h2 h3 h4[unfolded r_def], of None "[]" "[]"] h1 h2 h3 h4
  show ?thesis unfolding u_def r_def by blast
qed

section \<open>The SMB enumeration\<close>

lemma open_ports_loop_member:
  "open_ports_loop r host toks = Inr ops \<Longrightarrow> p \<in> set ops \<Longrightarrow>
   (\<exists>tok \<in> set toks. py_int (strip tok) = Inr p) \<and> port_state r host p = Inr (py ''open'')"
proof (induction toks arbitrary: ops)
  case Nil
  then show ?case by simp
next
  case (Cons tok toks)
  from Cons.prems(1) obtain q ops' where q: "py_int (strip tok) = Inr q"
    and l: "open_ports_loop r host toks = Inr ops'"
    and o: "ops = (case port_state r host q of
                     Inl e \<Rightarrow> ops'
                   | Inr st \<Rightarrow> if st = py ''open'' then q # ops' else ops')"
    by (auto split: sum.splits)
  show ?case
  proof (cases "p \<in> set ops'")
    case True
    from Cons.IH[OF l True] show ?thesis by auto
  next
    case False
    with o Cons.prems(2) have "p = q \<and> port_state r host q = Inr (py ''open'')"
      by (auto split: sum.splits if_splits)
    with q show ?thesis by auto
  qed
qed

lemma check_port_open_member:
  assumes "p \<in> set (check_port_open scanner host ports)"
  shows "(\<exists>tok \<in> set (split_char 44 ports). py_int (strip tok) = Inr p)
     \<and> (\<exists>r. scanner host ports (py ''-Pn'') = Inr r \<and> port_state r host p = Inr (py ''open''))"
proof -
  from assms obtain r ops where r: "scanner host ports (py ''-Pn'') = Inr r"
    and l: "open_ports_loop r host (split_char 44 ports) = Inr ops" and p: "p \<in> set ops"
    by (cases "scanner host ports (py ''-Pn'')";
        cases "open_ports_loop (projr (scanner host ports (py ''-Pn''))) host (split_char 44 ports)")
       (auto simp: check_port_open_def)
  from open_ports_loop_member[OF l p] r show ?thesis by blast
qed

lemma smb_loop_eq:
  "smb_loop scanner target ops scripts ports =
     (concat (map (\<lambda>p. case scanner target (str_int p) (py ''--script '' @ join (py '','') scripts) of
                          Inl e \<Rightarrow> [] | Inr r \<Rightarrow> [r])
                  (filter (\<lambda>p. p \<in> set ops) ports)),
      map (\<lambda>p. (target, str_int p, py ''--script '' @ join (py '','') scripts))
          (filter (\<lambda>p. p \<in> set ops) ports))"
  by (induction ports) (simp_all add: Let_def split: sum.splits prod.splits)

lemma scan_host_eq:
  "scan_host target ports sports scripts scanner =
     (concat (map (\<lambda>p. case scanner target (str_int p) (py ''--script '' @ join (py '','') scripts) of
                          Inl e \<Rightarrow> [] | Inr r \<Rightarrow> [r])
                  (filter (\<lambda>p. p \<in> set (check_port_open scanner target ports)) sports)),
      (target, ports, py ''-Pn'')
      # map (\<lambda>p. (target, str_int p, py ''--script '' @ join (py '','') scripts))
          (filter (\<lambda>p. p \<in> set (check_port_open scanner target ports)) sports))"
  by (simp add: scan_host_def smb_loop_eq Let_def)

text \<open>
  Claim C10. For every target, the scanner calls of \<^verbatim>\<open>scan_host\<close> are the port check and
  then one script scan for each port of [139, 445] that the port check returned; a port
  the port check returns is one of the user's candidate ports and reported open by the
  port-check scan; and when no candidate port is reported open, the result is empty and
  the port check is the only call.
\<close>

theorem smb_enumeration_only_on_open_candidate_smb_ports:
  "snd (process_target scanner ports target) =
      (target, ports, py ''-Pn'')
      # map (\<lambda>p. (target, str_int p, py ''--script '' @ join (py '','') smb_scripts))
          (filter (\<lambda>p. p \<in> set (check_port_open scanner target ports)) [139, 445])
   \<and> (\<forall>p \<in> set (check_port_open scanner target ports).
         (\<exists>tok \<in> set (split_char 44 ports). py_int (strip tok) = Inr p)
         \<and> (\<exists>r. scanner target ports (py ''-Pn'') = Inr r
                \<and> port_state r target p = Inr (py ''open'')))
   \<and> (\<not> (\<exists>p tok r. tok \<in> set (split_char 44 ports) \<and> py_int (strip tok) = Inr p
                \<and> scanner target ports (py ''-Pn'') = Inr r
                \<and> port_state r target p = Inr (py ''open''))
        \<longrightarrow> process_target scanner ports target = ([], [(target, ports, py ''-Pn'')]))"
proof (intro conjI ballI impI)
  show "snd (process_target scanner ports target) =
      (target, ports, py ''-Pn'')
      # map (\<lambda>p. (target, str_int p, py ''--script '' @ join (py '','') smb_scripts))
          (filter (\<lambda>p. p \<in> set (check_port_open scanner target ports)) [139, 445])"
    by (simp only: process_target_def scan_host_eq snd_conv smb_ports_def)
next
  fix p assume "p \<in> set (check_port_open scanner target ports)"
  from check_port_open_member[OF this]
  show "\<exists>tok \<in> set (split_char 44 ports). py_int (strip tok) = Inr p"
    and "\<exists>r. scanner target ports (py ''-Pn'') = Inr r \<and> port_state r target p = Inr (py ''open'')"
    by blast+
next
  assume n: "\<not> (\<exists>p tok r. tok \<in> set (split_char 44 ports) \<and> py_int (strip tok) = Inr p
                \<and> scanner target ports (py ''-Pn'') = Inr r
                \<and> port_state r target p = Inr (py ''open''))"
  have "check_port_open scanner target ports = []"
  proof (rule ccontr)
    assume "check_port_open scanner target ports \<noteq> []"
    then obtain p where "p \<in> set (check_port_open scanner target ports)"
      by (cases "check_port_open scanner target ports") auto
    from check_port_open_member[OF this] n show False by blast
  qed
  then show "process_target scanner ports target = ([], [(target, ports, py ''-Pn'')])"
    by (simp add: process_target_def scan_host_def)
qed

lemmas smb_eval = process_target_def scan_host_def check_port_open_def py_int_def
  int_literal_def port_state_def one_call_scanner_def script_outcome_def smb_ports_def
  smb_scripts_def smb_scan_parallel_def

lemma fixture_port_check:
  "check_port_open one_call_scanner (py ''10.0.0.5'') (py ''80,445'') = [445]"
  by (simp add: smb_eval py_eval)

lemma fixture_run:
  "process_target one_call_scanner (py ''80,445'') (py ''10.0.0.5'') =
     ([], [(py ''10.0.0.5'', py ''80,445'', py ''-Pn''),
           (py ''10.0.0.5'', py ''445'',
            py ''--script smb-enum-shares,smb-enum-users,smb-enum-sessions,smb-os-discovery'')])"
  by (simp add: smb_eval py_eval)

lemma fixture_no_open_port:
  "\<not> (\<exists>p tok r. tok \<in> set (split_char 44 (py ''80'')) \<and> py_int (strip tok) = Inr p
          \<and> one_call_scanner (py ''10.0.0.5'') (py ''80'') (py ''-Pn'') = Inr r
          \<and> port_state r (py ''10.0.0.5'') p = Inr (py ''open''))"
  by (auto simp add: smb_eval py_eval)

theorem smb_enumeration_only_on_open_candidate_smb_ports_witness:
  "445 \<in> set (check_port_open one_call_scanner (py ''10.0.0.5'') (py ''80,445''))
   \<and> (\<exists>tok \<in> set (split_char 44 (py ''80,445'')). py_int (strip tok) = Inr 445)
   \<and> (\<exists>r. one_call_scanner (py ''10.0.0.5'') (py ''80,445'') (py ''-Pn'') = Inr r
          \<and> port_state r (py ''10.0.0.5'') 445 = Inr (py ''open''))
   \<and> snd (process_target one_call_scanner (py ''80,445'') (py ''10.0.0.5'')) =
        [(py ''10.0.0.5'', py ''80,445'', py ''-Pn''),
         (py ''10.0.0.5'', py ''445'',
          py ''--script smb-enum-shares,smb-enum-users,smb-enum-sessions,smb-os-discovery'')]
   \<and> \<not> (\<exists>p tok r. tok \<in> set (split_char 44 (py ''80'')) \<and> py_int (strip tok) = Inr p
          \<and> one_call_scanner (py ''10.0.0.5'') (py ''80'') (py ''-Pn'') = Inr r
          \<and> port_state r (py ''10.0.0.5'') p = Inr (py ''open''))
   \<and> process_target one_call_scanner (py ''80'') (py ''10.0.0.5'') =
        ([], [(py ''10.0.0.5'', py ''80'', py ''-Pn'')])"
proof -
  note t1 = smb_enumeration_only_on_open_candidate_smb_ports
              [of one_call_scanner "py ''80,445''" "py ''10.0.0.5''"]
  note t2 = smb_enumeration_only_on_open_candidate_smb_ports
              [of one_call_scanner "py ''80''" "py ''10.0.0.5''"]
  have m: "445 \<in> set (check_port_open one_call_scanner (py ''10.0.0.5'') (py ''80,445''))"
    by (simp only: fixture_port_check) simp
  from t1 m have a: "\<exists>tok \<in> set (split_char 44 (py ''80,445'')). py_int (strip tok) = Inr 445"
    and b: "\<exists>r. one_call_scanner (py ''10.0.0.5'') (py ''80,445'') (py ''-Pn'') = Inr r
          \<and> port_state r (py ''10.0.0.5'') 445 = Inr (py ''open'')"
    by blast+
  have c: "snd (process_target one_call_scanner (py ''80,445'') (py ''10.0.0.5'')) =
        [(py ''10.0.0.5'', py ''80,445'', py ''-Pn''),
         (py ''10.0.0.5'', py ''445'',
          py ''--script smb-enum-shares,smb-enum-users,smb-enum-sessions,smb-os-discovery'')]"
    by (simp only: fixture_run snd_conv)
  from t2 fixture_no_open_port
  have d: "process_target one_call_scanner (py ''80'') (py ''10.0.0.5'') =
        ([], [(py ''10.0.0.5'', py ''80'', py ''-Pn'')])"
    by blast
  from m a b c fixture_no_open_port d show ?thesis by blast
qed

text \<open>
  Claim C8, as stated, fails. The scripts of a host are not run one by one: they are
  passed together in one scanner call, and an exception of that call drops everything.
  On the fixture, \<^verbatim>\<open>smb-os-discovery\<close> has a payload and \<^verbatim>\<open>smb-enum-users\<close> fails; port 445
  is open; yet the result for the host is empty, holding neither the payload nor a
  failure marker.
\<close>

theorem script_failure_discards_payload:
  "script_outcome (py ''smb-os-discovery'') = Inr (py ''OS: Windows 10'')
   \<and> script_outcome (py ''smb-enum-users'') = Inl PortScannerError
   \<and> check_port_open one_call_scanner (py ''10.0.0.5'') (py ''80,445'') = [445]
   \<and> fst (process_target one_call_scanner (py ''80,445'') (py ''10.0.0.5'')) = []
   \<and> smb_scan_parallel one_call_scanner [py ''10.0.0.5''] (py ''80,445'') = []"
  by (simp add: fixture_port_check fixture_run smb_scan_parallel_def)
     (simp add: script_outcome_def py_def)

text \<open>
  Claim C8, amended. For each port of [139, 445] that the port check found open,
  \<^verbatim>\<open>scan_host\<close> makes one scanner call with all scripts. The result of a call that
  returns is appended as it is, with whatever payloads and failure notes the scanner put
  into it; a call that raises contributes nothing, and the scan of the other port still
  takes place.
\<close>

theorem scan_host_results_per_port:
  "fst (process_target scanner ports target) =
     concat (map (\<lambda>p. case scanner target (str_int p)
                              (py ''--script '' @ join (py '','') smb_scripts) of
                         Inl e \<Rightarrow> [] | Inr r \<Rightarrow> [r])
                 (filter (\<lambda>p. p \<in> set (check_port_open scanner target ports)) [139, 445]))"
  by (simp only: process_target_def scan_host_eq fst_conv smb_ports_def)

theorem scan_host_results_per_port_witness:
  "fst (process_target one_call_scanner (py ''80,445'') (py ''10.0.0.5'')) =
     concat (map (\<lambda>p. case one_call_scanner (py ''10.0.0.5'') (str_int p)
                              (py ''--script '' @ join (py '','') smb_scripts) of
                         Inl e \<Rightarrow> [] | Inr r \<Rightarrow> [r])
                 (filter (\<lambda>p. p \<in> set (check_port_open one_call_scanner (py ''10.0.0.5'')
                                           (py ''80,445'')))
                    [139, 445]))
   \<and> one_call_scanner (py ''10.0.0.5'') (str_int 445)
        (py ''--script '' @ join (py '','') smb_scripts) = Inl PortScannerError"
proof -
  have "one_call_scanner (py ''10.0.0.5'') (str_int 445)
        (py ''--script '' @ join (py '','') smb_scripts) = Inl PortScannerError"
    by (simp add: smb_eval py_eval)
  with scan_host_results_per_port[of one_call_scanner "py ''80,445''" "py ''10.0.0.5''"]
  show ?thesis by blast
qed

section \<open>The lines of the output file\<close>

lemma crlf_append: "a = [] \<or> last a \<noteq> 13 \<Longrightarrow> crlf (a @ b) = crlf a @ crlf b"
  apply (induction a rule: crlf.induct)
  subgoal for c d cs by (cases "cs = []") auto
  subgoal by simp
  subgoal for v by (cases b) auto
  done

lemma crlf_last: "a \<noteq> [] \<Longrightarrow> crlf a \<noteq> [] \<and> last (crlf a) = last a"
  by (induction a rule: crlf.induct) auto

lemma crlf_id: "13 \<notin> set s \<Longrightarrow> crlf s = s"
  by (induction s rule: crlf.induct) auto

lemma read_text_append:
  "a = [] \<or> last a \<noteq> 13 \<Longrightarrow> read_text (a @ b) = read_text a @ read_text b"
  by (simp add: read_text_def crlf_append)

lemma read_text_last: "a \<noteq> [] \<Longrightarrow> last a = 10 \<Longrightarrow> read_text a \<noteq> [] \<and> last (read_text a) = 10"
  using crlf_last[of a] by (simp add: read_text_def last_map)

lemma splitlines_read_text: "splitlines (read_text c) = lines_of (read_text c)"
proof -
  have "13 \<notin> set (read_text c)" by (auto simp: read_text_def)
  then show ?thesis by (simp add: splitlines_def crlf_id)
qed

lemma lines_of_Nil: "lines_of s = [] \<longleftrightarrow> s = []"
  by (cases s) (auto split: list.splits)

lemma lines_of_append:
  "x = [] \<or> linebreak (last x) \<Longrightarrow> lines_of (x @ y) = lines_of x @ lines_of y"
proof (induction x)
  case Nil
  then show ?case by simp
next
  case (Cons c cs)
  show ?case
  proof (cases "cs = []")
    case True
    with Cons.prems show ?thesis by simp
  next
    case False
    with Cons.prems have "linebreak (last cs)" by simp
    with Cons.IH have ih: "lines_of (cs @ y) = lines_of cs @ lines_of y" by simp
    from False obtain l ls where l: "lines_of cs = l # ls"
      using lines_of_Nil[of cs] by (cases "lines_of cs") auto
    show ?thesis by (simp add: ih l)
  qed
qed

lemma file_lines_append:
  assumes "a = [] \<or> last a = 10"
  shows "splitlines (read_text (a @ b)) = splitlines (read_text a) @ splitlines (read_text b)"
proof (cases "a = []")
  case True
  then show ?thesis by (simp add: read_text_def splitlines_def)
next
  case False
  with assms have l: "last a = 10" by simp
  then have "read_text (a @ b) = read_text a @ read_text b"
    by (intro read_text_append) simp
  moreover have "linebreak (last (read_text a))"
    using read_text_last[OF False l] by (simp add: linebreak_def)
  ultimately have "lines_of (read_text (a @ b)) = lines_of (read_text a) @ lines_of (read_text b)"
    using lines_of_append[of "read_text a" "read_text b"] by simp
  then show ?thesis
    by (simp only: splitlines_read_text)
qed

lemma appended_ends: "appended nmap t x = [] \<or> last (appended nmap t x) = 10"
  by (simp add: appended_def scan_entry_def split: outcome.splits)

lemma concat_ends:
  "(\<And>x. g x = [] \<or> last (g x) = (10::nat)) \<Longrightarrow> c = [] \<or> last c = 10 \<Longrightarrow>
   c @ concat (map g xs) = [] \<or> last (c @ concat (map g xs)) = 10"
proof (induction xs rule: rev_induct)
  case Nil
  then show ?case by simp
next
  case (snoc x xs)
  from snoc.prems(1)[of x] show ?case
  proof
    assume "g x = []"
    with snoc show ?thesis by simp
  next
    assume "last (g x) = 10"
    then show ?thesis by (cases "g x = []") (use snoc in simp_all)
  qed
qed

lemma file_lines_concat:
  assumes g: "\<And>x. g x = [] \<or> last (g x) = (10::nat)" and c: "c = [] \<or> last c = 10"
  shows "splitlines (read_text (c @ concat (map g xs)))
       = splitlines (read_text c) @ concat (map (\<lambda>x. splitlines (read_text (g x))) xs)"
proof (induction xs rule: rev_induct)
  case Nil
  then show ?case by simp
next
  case (snoc x xs)
  have "splitlines (read_text ((c @ concat (map g xs)) @ g x))
      = splitlines (read_text (c @ concat (map g xs))) @ splitlines (read_text (g x))"
    by (rule file_lines_append) (rule concat_ends[OF g c])
  then show ?case by (simp add: snoc.IH)
qed

section \<open>The output file after the scans\<close>

lemma appended_none:
  "\<not> (\<exists>x \<in> set xs. \<exists>out. nmap x t = Completed out) \<Longrightarrow> concat (map (appended nmap t) xs) = []"
  by (induction xs) (auto simp: appended_def split: outcome.splits)

lemma run_nmap_scan_appended:
  "fst (run_nmap_scan nmap x f t) =
     (if \<exists>out. nmap x t = Completed out
      then Some ((case f of None \<Rightarrow> [] | Some c \<Rightarrow> c) @ appended nmap t x)
      else f)"
  by (simp add: run_nmap_scan_def appended_def split: outcome.splits)

lemma run_scans_eq:
  "run_scans nmap t f xs =
     (if \<exists>x \<in> set xs. \<exists>out. nmap x t = Completed out
      then Some ((case f of None \<Rightarrow> [] | Some c \<Rightarrow> c) @ concat (map (appended nmap t) xs))
      else f)"
proof (induction xs arbitrary: f)
  case Nil
  then show ?case by simp
next
  case (Cons x xs)
  show ?case
  proof (cases "\<exists>out. nmap x t = Completed out")
    case True
    then show ?thesis
      by (cases "\<exists>x \<in> set xs. \<exists>out. nmap x t = Completed out")
         (simp_all add: Cons.IH run_nmap_scan_appended appended_none)
  next
    case False
    then have "appended nmap t x = []"
      by (auto simp: appended_def split: outcome.splits)
    with False show ?thesis
      by (simp add: Cons.IH run_nmap_scan_appended)
  qed
qed

section \<open>The host table\<close>

lemma add_host_map_of:
  "map_of (add_host t k h) k' =
     (if k' = k then Some ((case map_of t k of None \<Rightarrow> [] | Some hs \<Rightarrow> hs) @ [h])
      else map_of t k')"
  by (induction t k h rule: add_host.induct) auto

lemma add_host_keys:
  "map fst (add_host t k h) = (if k \<in> set (map fst t) then map fst t else map fst t @ [k])"
  by (induction t k h rule: add_host.induct) auto

lemma add_host_distinct: "distinct (map fst t) \<Longrightarrow> distinct (map fst (add_host t k h))"
  by (simp add: add_host_keys)

lemma parse_line_count:
  "host_count (parse_line t l) k =
     host_count t k + (if map_option fst (report_line l) = Some k then 1 else 0)"
  by (cases "report_line l")
     (auto simp: parse_line_def host_count_def add_host_map_of split: option.splits)

lemma parse_line_distinct: "distinct (map fst t) \<Longrightarrow> distinct (map fst (parse_line t l))"
  by (cases "report_line l") (auto simp: parse_line_def add_host_distinct)

lemma foldl_parse_count:
  "host_count (foldl parse_line t ls) k = host_count t k + line_count k ls"
proof (induction ls arbitrary: t)
  case Nil
  then show ?case by (simp add: line_count_def)
next
  case (Cons l ls)
  then show ?case by (simp add: parse_line_count line_count_def)
qed

lemma foldl_parse_distinct:
  "distinct (map fst t) \<Longrightarrow> distinct (map fst (foldl parse_line t ls))"
  by (induction ls arbitrary: t) (simp_all add: parse_line_distinct)

lemma active_set_count:
  assumes "distinct (map fst t)"
  shows "set (map fst (filter (\<lambda>(subnet, hosts). length hosts \<ge> 2) t)) = {k. 2 \<le> host_count t k}"
proof -
  have "(k, hs) \<in> set t \<longleftrightarrow> map_of t k = Some hs" for k hs
    using assms by simp
  then show ?thesis
    by (auto simp: host_count_def image_iff split: option.splits)
qed

lemma parse_nmap_output_active:
  "parse_nmap_output (Some content) =
     Inr ({k. 2 \<le> line_count k (splitlines (read_text content))},
          foldl parse_line [] (splitlines (read_text content)))"
proof -
  have "distinct (map fst (foldl parse_line [] (splitlines (read_text content))))"
    by (rule foldl_parse_distinct) simp
  from active_set_count[OF this]
  have "set (map fst (filter (\<lambda>(subnet, hosts). length hosts \<ge> 2)
                (foldl parse_line [] (splitlines (read_text content)))))
      = {k. 2 \<le> line_count k (splitlines (read_text content))}"
    by (simp only: foldl_parse_count) (simp add: host_count_def)
  then show ?thesis
    by (simp only: parse_nmap_output_def Let_def option.case)
qed

lemma line_count_append: "line_count k (xs @ ys) = line_count k xs + line_count k ys"
  by (simp add: line_count_def)

lemma line_count_concat:
  "line_count k (concat (map g xs)) = sum_list (map (\<lambda>x. line_count k (g x)) xs)"
  by (induction xs) (simp_all add: line_count_append, simp add: line_count_def)

lemma sum_list_perm:
  "mset xs = mset ys \<Longrightarrow> sum_list (map f xs) = sum_list (map (f :: 'a \<Rightarrow> nat) ys)"
proof -
  assume "mset xs = mset ys"
  then have "mset (map f xs) = mset (map f ys)" by simp
  then have "sum_mset (mset (map f xs)) = sum_mset (mset (map f ys))" by simp
  then show ?thesis by (simp only: sum_mset_sum_list)
qed

lemma line_count_perm:
  "mset xs = mset ys \<Longrightarrow>
   line_count k (concat (map g xs)) = line_count k (concat (map g ys))"
  by (simp only: line_count_concat) (rule sum_list_perm)

section \<open>Reports of runs that start afresh\<close>

lemma fresh_run_reports:
  assumes "progress_file fs = None \<or> (\<exists>c. progress_file fs = Some c \<and> strip (read_text c) = [])"
  shows "reports (scan_networks v6 nmap sched timeout fs) =
     (case parse_nmap_output
             (run_scans nmap timeout (nmap_output_file fs)
                (map str_network (write_order sched
                   (map (\<lambda>k. \<lparr>network_address = 167772160 + k * 256, prefixlen = 24\<rparr>)
                      [0 ..< 65536])))) of
        Inl e \<Rightarrow> Inl e
      | Inr (active_subnets, active_hosts) \<Rightarrow>
          Inr (save_to_file active_subnets, hosts_report active_hosts))"
  by (rule scan_networks_submitted(5)[OF start_network_absent_or_empty[OF assms] base_submit_None])

lemma active_list_of_output:
  "map_sum id fst
     (case parse_nmap_output out of
        Inl e \<Rightarrow> Inl e
      | Inr (active_subnets, active_hosts) \<Rightarrow>
          Inr (save_to_file active_subnets, hosts_report active_hosts)) =
   (case out of
      None \<Rightarrow> Inl FileNotFoundError
    | Some content \<Rightarrow>
        Inr (save_to_file {k. 2 \<le> line_count k (splitlines (read_text content))}))"
  by (cases out) (simp_all add: parse_nmap_output_active, simp add: parse_nmap_output_def)

lemma active_list_perm:
  assumes m: "mset xs = mset ys" and c: "\<forall>c. f = Some c \<longrightarrow> c = [] \<or> last c = 10"
  shows "(case run_scans nmap t f xs of
            None \<Rightarrow> Inl FileNotFoundError
          | Some content \<Rightarrow>
              Inr (save_to_file {k. 2 \<le> line_count k (splitlines (read_text content))})) =
         (case run_scans nmap t f ys of
            None \<Rightarrow> Inl FileNotFoundError
          | Some content \<Rightarrow>
              Inr (save_to_file {k. 2 \<le> line_count k (splitlines (read_text content))}))"
proof -
  define c0 where "c0 = (case f of None \<Rightarrow> [] | Some c \<Rightarrow> c)"
  have c0: "c0 = [] \<or> last c0 = 10"
    using c by (cases f) (simp_all add: c0_def)
  from m have s: "set xs = set ys" by (rule mset_eq_setD)
  have lc: "line_count k (splitlines (read_text (c0 @ concat (map (appended nmap t) zs)))) =
      line_count k (splitlines (read_text c0))
      + line_count k (concat (map (\<lambda>x. splitlines (read_text (appended nmap t x))) zs))" for k zs
    by (simp only: file_lines_concat[OF appended_ends c0] line_count_append)
  have "line_count k (splitlines (read_text (c0 @ concat (map (appended nmap t) xs)))) =
      line_count k (splitlines (read_text (c0 @ concat (map (appended nmap t) ys))))" for k
    by (simp only: lc line_count_perm[OF m])
  then have "{k. 2 \<le> line_count k (splitlines (read_text (c0 @ concat (map (appended nmap t) xs))))}
      = {k. 2 \<le> line_count k (splitlines (read_text (c0 @ concat (map (appended nmap t) ys))))}"
    by simp
  then show ?thesis
    unfolding run_scans_eq s c0_def[symmetric]
    by (cases "\<exists>x\<in>set ys. \<exists>out. nmap x t = Completed out") simp_all
qed

text \<open>
  Claim C9, amended. Two runs that each start from an empty progress store and from the
  same content of the nmap output file (nothing, or complete lines), against the same
  probe fixture, produce the same list of active subnets, or fail alike, whatever the
  order in which their scans write; their whole reports are the same when the scans
  write in the same order.
\<close>

theorem fresh_runs_report_alike:
  assumes "progress_file fs1 = None \<or> (\<exists>c. progress_file fs1 = Some c \<and> strip (read_text c) = [])"
    and "progress_file fs2 = None \<or> (\<exists>c. progress_file fs2 = Some c \<and> strip (read_text c) = [])"
    and "nmap_output_file fs1 = nmap_output_file fs2"
    and "\<forall>c. nmap_output_file fs1 = Some c \<longrightarrow> c = [] \<or> last c = 10"
    and "\<And>subs. mset (write_order s1 subs) = mset subs"
    and "\<And>subs. mset (write_order s2 subs) = mset subs"
  shows "map_sum id fst (reports (scan_networks v6 nmap s1 timeout fs1))
       = map_sum id fst (reports (scan_networks v6 nmap s2 timeout fs2))
     \<and> ((\<forall>subs. write_order s1 subs = write_order s2 subs) \<longrightarrow>
          reports (scan_networks v6 nmap s1 timeout fs1)
            = reports (scan_networks v6 nmap s2 timeout fs2))"
proof -
  define full where
    "full = map (\<lambda>k. \<lparr>network_address = 167772160 + k * 256, prefixlen = 24\<rparr>) [0 ..< 65536]"
  have m: "mset (map str_network (write_order s1 full)) = mset (map str_network (write_order s2 full))"
    by (simp only: mset_map assms(5) assms(6))
  have "map_sum id fst (reports (scan_networks v6 nmap s1 timeout fs1))
       = map_sum id fst (reports (scan_networks v6 nmap s2 timeout fs2))"
    unfolding fresh_run_reports[OF assms(1)] fresh_run_reports[OF assms(2)]
      active_list_of_output full_def[symmetric] assms(3)[symmetric]
    by (rule active_list_perm[OF m assms(4)])
  moreover have "reports (scan_networks v6 nmap s1 timeout fs1)
            = reports (scan_networks v6 nmap s2 timeout fs2)"
    if "\<forall>subs. write_order s1 subs = write_order s2 subs"
    unfolding fresh_run_reports[OF assms(1)] fresh_run_reports[OF assms(2)]
    using that assms(3) by simp
  ultimately show ?thesis by blast
qed

theorem fresh_runs_report_alike_witness:
  "progress_file no_files = None
   \<and> nmap_output_file no_files = None
   \<and> (\<forall>subs. mset (write_order in_order subs) = mset subs)
   \<and> (\<forall>subs. mset (write_order reverse_writes subs) = mset subs)
   \<and> map_sum id fst (reports (scan_networks no_ipv6 two_subnet_prober in_order 60 no_files))
       = map_sum id fst (reports (scan_networks no_ipv6 two_subnet_prober reverse_writes 60 no_files))
   \<and> (\<forall>subs. write_order in_order subs = write_order reverse_completion subs)
   \<and> reports (scan_networks no_ipv6 two_subnet_prober in_order 60 no_files)
       = reports (scan_networks no_ipv6 two_subnet_prober reverse_completion 60 no_files)"
proof -
  have p: "progress_file no_files = None" and n: "nmap_output_file no_files = None"
    by (simp_all add: no_files_def)
  have w1: "mset (write_order in_order subs) = mset subs" for subs
    by (simp add: in_order_def)
  have w2: "mset (write_order reverse_writes subs) = mset subs" for subs
    by (simp add: reverse_writes_def)
  have w3: "mset (write_order reverse_completion subs) = mset subs" for subs
    by (simp add: reverse_completion_def)
  have e: "write_order in_order subs = write_order reverse_completion subs" for subs
    by (simp add: in_order_def reverse_completion_def)
  have a: "progress_file no_files = None
      \<or> (\<exists>c. progress_file no_files = Some c \<and> strip (read_text c) = [])"
    using p by blast
  have c: "\<forall>c. nmap_output_file no_files = Some c \<longrightarrow> c = [] \<or> last c = 10"
    using n by simp
  from fresh_runs_report_alike[OF a a refl c w1 w2, of no_ipv6 two_subnet_prober 60]
  have r1: "map_sum id fst (reports (scan_networks no_ipv6 two_subnet_prober in_order 60 no_files))
       = map_sum id fst (reports (scan_networks no_ipv6 two_subnet_prober reverse_writes 60 no_files))"
    by blast
  from fresh_runs_report_alike[OF a a refl c w1 w3, of no_ipv6 two_subnet_prober 60] e
  have r2: "reports (scan_networks no_ipv6 two_subnet_prober in_order 60 no_files)
       = reports (scan_networks no_ipv6 two_subnet_prober reverse_completion 60 no_files)"
    by blast
  from p n w1 w2 r1 e r2 show ?thesis by blast
qed

section \<open>The strings of the scan units\<close>

lemma str_nat_digits: "str_nat n \<noteq> [] \<and> (\<forall>c \<in> set (str_nat n). 48 \<le> c \<and> c \<le> 57)"
proof (induction n rule: str_nat.induct)
  case (1 n)
  show ?case
  proof (cases "n < 10")
    case True
    then show ?thesis by (subst str_nat.simps, subst (2) str_nat.simps) simp
  next
    case False
    have "n mod 10 < 10" by simp
    then have "48 + n mod 10 \<le> 57" by linarith
    with False 1 show ?thesis by (subst str_nat.simps, subst (2) str_nat.simps) auto
  qed
qed

lemma str_nat_single: "str_nat n = [48 + d] \<Longrightarrow> d < 10 \<Longrightarrow> n = d"
proof -
  assume e: "str_nat n = [48 + d]" and d: "d < 10"
  show ?thesis
  proof (cases "n < 10")
    case True
    with e show ?thesis by (subst (asm) str_nat.simps) simp
  next
    case False
    with e have "str_nat (n div 10) @ [48 + n mod 10] = [48 + d]"
      by (subst (asm) str_nat.simps) simp
    then have "str_nat (n div 10) = []" by simp
    with str_nat_digits[of "n div 10"] show ?thesis by simp
  qed
qed

lemma split_at: "A @ d # R = A' @ d # R' \<Longrightarrow> d \<notin> set A \<Longrightarrow> d \<notin> set A' \<Longrightarrow> A = A' \<and> R = R'"
proof (induction A arbitrary: A')
  case Nil
  then show ?case by (cases A') auto
next
  case (Cons a A)
  then show ?case by (cases A') auto
qed

lemma unit_octets:
  fixes k :: nat
  assumes "k < 65536"
  shows "(167772160 + k * 256) div 2 ^ 24 mod 256 = 10"
    and "(167772160 + k * 256) div 2 ^ 16 mod 256 = k div 256"
    and "(167772160 + k * 256) div 2 ^ 8 mod 256 = k mod 256"
    and "(167772160 + k * 256) mod 256 = 0"
proof -
  have a: "167772160 + k * 256 = 10 * 16777216 + k * 256" by simp
  have "k * 256 < 16777216" using assms by simp
  then have "(10 * 16777216 + k * 256) div 16777216 = 10"
    by (intro div_nat_eqI) simp_all
  then show "(167772160 + k * 256) div 2 ^ 24 mod 256 = 10" by simp
  have "(167772160 + k * 256) div 65536 = 2560 + k div 256"
  proof -
    have "167772160 + k * 256 = 2560 * 65536 + k * 256" by simp
    then have "(167772160 + k * 256) div 65536 = 2560 + (k * 256) div 65536"
      by (simp only: div_mult_self3) 
    also have "(k * 256) div 65536 = k div 256"
    proof -
      have "(65536::nat) = 256 * 256" by simp
      then show ?thesis by (simp only: mult.commute[of k 256] div_mult_mult1)
    qed
    finally show ?thesis .
  qed
  moreover have "k div 256 < 256" using assms by simp
  moreover have "(2560 + k div 256) mod 256 = k div 256 mod 256"
    using mod_mult_self1[of "k div 256" 10 256] by (simp add: add.commute)
  ultimately show "(167772160 + k * 256) div 2 ^ 16 mod 256 = k div 256"
    by simp
  have "(167772160 + k * 256) div 256 = 655360 + k"
    by simp
  moreover have "(655360 + k) mod 256 = k mod 256"
    using mod_mult_self1[of k 2560 256] by (simp add: add.commute)
  ultimately show "(167772160 + k * 256) div 2 ^ 8 mod 256 = k mod 256"
    by simp
  show "(167772160 + k * 256) mod 256 = 0" by simp
qed

lemma str_unit:
  assumes "k < 65536"
  shows "str_network \<lparr>network_address = 167772160 + k * 256, prefixlen = 24\<rparr> =
    [49, 48, 46] @ str_nat (k div 256) @ [46] @ str_nat (k mod 256) @ [46, 48, 47, 50, 52]"
proof -
  have "str_nat 10 = [49, 48]" "str_nat 0 = [48]" "str_nat 24 = [50, 52]"
    by (simp_all add: str_nat.simps)
  then show ?thesis
    by (simp add: str_network_def str_address_def unit_octets[OF assms] py_def
        del: power_numeral)
qed

lemma str_unit_eq:
  assumes "k < 65536" and "d < 10"
  shows "str_network \<lparr>network_address = 167772160 + k * 256, prefixlen = 24\<rparr>
           = [49, 48, 46, 48, 46, 48 + d, 46, 48, 47, 50, 52]
     \<longleftrightarrow> k = d"
proof
  assume "str_network \<lparr>network_address = 167772160 + k * 256, prefixlen = 24\<rparr>
           = [49, 48, 46, 48, 46, 48 + d, 46, 48, 47, 50, 52]"
  then have e: "str_nat (k div 256) @ 46 # (str_nat (k mod 256) @ [46, 48, 47, 50, 52])
      = [48] @ 46 # ([48 + d] @ [46, 48, 47, 50, 52])"
    by (simp add: str_unit[OF assms(1)])
  have dot: "46 \<notin> set (str_nat n)" for n
    using str_nat_digits[of n] by auto
  have d1: "46 \<notin> set [48::nat]" by simp
  have d2: "46 \<notin> set [48 + d]" by simp
  from split_at[OF e dot d1] have a: "str_nat (k div 256) = [48 + 0]"
    and r: "str_nat (k mod 256) @ 46 # [48, 47, 50, 52] = [48 + d] @ 46 # [48, 47, 50, 52]"
    by simp_all
  from split_at[OF r dot d2] have b: "str_nat (k mod 256) = [48 + d]" by simp
  from str_nat_single[OF a] have "k div 256 = 0" by simp
  moreover from str_nat_single[OF b assms(2)] have "k mod 256 = d" .
  ultimately show "k = d"
    using div_mult_mod_eq[of k 256] by simp
next
  assume "k = d"
  with assms(2) have k: "k div 256 = 0" "k mod 256 = d" by simp_all
  have "str_nat 0 = [48]" "str_nat d = [48 + d]"
    using assms(2) by (simp_all add: str_nat.simps)
  then show "str_network \<lparr>network_address = 167772160 + k * 256, prefixlen = 24\<rparr>
           = [49, 48, 46, 48, 46, 48 + d, 46, 48, 47, 50, 52]"
    by (simp add: str_unit[OF assms(1)] k)
qed

section \<open>Runs on the fixture with two active subnets\<close>

lemma concat_nonempty:
  "concat (map h ks) = concat (map h (filter (\<lambda>k. h k \<noteq> []) ks))"
  by (induction ks) simp_all

lemma filter_upt_none: "(\<And>k. i \<le> k \<Longrightarrow> k < j \<Longrightarrow> \<not> P k) \<Longrightarrow> filter P [i ..< j] = []"
  by (simp add: filter_empty_conv)

lemma filter_upt_2_3:
  assumes "\<And>k. k < n \<Longrightarrow> P k \<longleftrightarrow> k = 2 \<or> k = 3" and "4 \<le> n"
  shows "filter P [0 ..< n] = [2, 3]"
proof -
  obtain m where n: "n = 4 + m" using assms(2) by (metis le_Suc_ex)
  have "[0 ..< 4 + m] = [0 ..< 4] @ [4 ..< 4 + m]"
    by (rule upt_add_eq_append) simp
  moreover have "[0 ..< 4] = [0, 1, 2, 3::nat]"
    by (simp add: upt_rec)
  ultimately have e: "[0 ..< n] = [0, 1, 2, 3] @ [4 ..< n]" by (simp only: n)
  have "filter P [4 ..< n] = []"
    using assms(1) by (intro filter_upt_none) simp
  moreover have "filter P [0, 1, 2, 3] = [2, 3]"
    using assms by simp
  ultimately show ?thesis by (simp only: e filter_append append_Nil2)
qed

lemma unit_strings:
  "py ''10.0.2.0/24'' = [49, 48, 46, 48, 46, 48 + 2, 46, 48, 47, 50, 52]"
  "py ''10.0.3.0/24'' = [49, 48, 46, 48, 46, 48 + 3, 46, 48, 47, 50, 52]"
  by (simp_all add: py_def)

lemma two_subnet_appended:
  assumes "k < 65536"
  shows "appended two_subnet_prober 60
           (str_network \<lparr>network_address = 167772160 + k * 256, prefixlen = 24\<rparr>) =
         (if k = 2
          then scan_entry (py ''10.0.2.0/24'')
                 (py ''Nmap scan report for 10.0.2.5'' @ [10]
                  @ py ''Nmap scan report for 10.0.2.9'' @ [10])
          else if k = 3
          then scan_entry (py ''10.0.3.0/24'')
                 (py ''Nmap scan report for 10.0.3.5'' @ [10]
                  @ py ''Nmap scan report for 10.0.3.9'' @ [10])
          else [])"
proof -
  have a: "str_network \<lparr>network_address = 167772160 + k * 256, prefixlen = 24\<rparr> = py ''10.0.2.0/24''
      \<longleftrightarrow> k = 2"
    unfolding unit_strings by (rule str_unit_eq[OF assms]) simp
  have b: "str_network \<lparr>network_address = 167772160 + k * 256, prefixlen = 24\<rparr> = py ''10.0.3.0/24''
      \<longleftrightarrow> k = 3"
    unfolding unit_strings by (rule str_unit_eq[OF assms]) simp
  have ne: "py ''10.0.2.0/24'' \<noteq> py ''10.0.3.0/24''" by (simp add: py_def)
  show ?thesis
  proof (cases "k = 2")
    case True
    with a have "str_network \<lparr>network_address = 167772160 + k * 256, prefixlen = 24\<rparr>
        = py ''10.0.2.0/24''" by blast
    with True show ?thesis by (simp only: appended_def two_subnet_prober_def) simp
  next
    case False
    show ?thesis
    proof (cases "k = 3")
      case True
      with b have "str_network \<lparr>network_address = 167772160 + k * 256, prefixlen = 24\<rparr>
          = py ''10.0.3.0/24''" by blast
      with True ne show ?thesis by (simp only: appended_def two_subnet_prober_def) simp
    next
      case False
      with \<open>k \<noteq> 2\<close> a b
      have "str_network \<lparr>network_address = 167772160 + k * 256, prefixlen = 24\<rparr>
          \<noteq> py ''10.0.2.0/24''"
        and "str_network \<lparr>network_address = 167772160 + k * 256, prefixlen = 24\<rparr>
          \<noteq> py ''10.0.3.0/24''" by blast+
      with False \<open>k \<noteq> 2\<close> show ?thesis
        by (simp add: appended_def two_subnet_prober_def)
    qed
  qed
qed

lemma two_subnet_output:
  fixes f :: "pystr option"
  defines "unit \<equiv> (\<lambda>k::nat. \<lparr>network_address = 167772160 + k * 256, prefixlen = 24\<rparr>)"
    and "E2 \<equiv> scan_entry (py ''10.0.2.0/24'')
                 (py ''Nmap scan report for 10.0.2.5'' @ [10]
                  @ py ''Nmap scan report for 10.0.2.9'' @ [10])"
    and "E3 \<equiv> scan_entry (py ''10.0.3.0/24'')
                 (py ''Nmap scan report for 10.0.3.5'' @ [10]
                  @ py ''Nmap scan report for 10.0.3.9'' @ [10])"
  shows "run_scans two_subnet_prober 60 f (map str_network (map unit [0 ..< 65536])) =
           Some ((case f of None \<Rightarrow> [] | Some c \<Rightarrow> c) @ E2 @ E3)"
    and "run_scans two_subnet_prober 60 f (map str_network (rev (map unit [0 ..< 65536]))) =
           Some ((case f of None \<Rightarrow> [] | Some c \<Rightarrow> c) @ E3 @ E2)"
proof -
  define h where "h = (\<lambda>k. appended two_subnet_prober 60 (str_network (unit k)))"
  have h: "h k = (if k = 2 then E2 else if k = 3 then E3 else [])" if "k < 65536" for k
    unfolding h_def unit_def E2_def E3_def by (rule two_subnet_appended[OF that])
  have ne: "E2 \<noteq> []" "E3 \<noteq> []"
    by (simp_all add: E2_def E3_def scan_entry_def)
  have "h k \<noteq> [] \<longleftrightarrow> k = 2 \<or> k = 3" if "k < 65536" for k
    using h[OF that] ne by simp
  then have flt: "filter (\<lambda>k. h k \<noteq> []) [0 ..< 65536] = [2, 3]"
    by (intro filter_upt_2_3) simp_all
  have h23: "h 2 = E2" "h 3 = E3"
    using h[of 2] h[of 3] by simp_all
  have "concat (map h [0 ..< 65536]) = concat (map h (filter (\<lambda>k. h k \<noteq> []) [0 ..< 65536]))"
    by (rule concat_nonempty)
  then have c1: "concat (map h [0 ..< 65536]) = E2 @ E3"
    by (simp only: flt) (simp add: h23)
  have "concat (map h (rev [0 ..< 65536]))
      = concat (map h (filter (\<lambda>k. h k \<noteq> []) (rev [0 ..< 65536])))"
    by (rule concat_nonempty)
  then have c2: "concat (map h (rev [0 ..< 65536])) = E3 @ E2"
    by (simp only: rev_filter[symmetric] flt) (simp add: h23)
  have m1: "map (appended two_subnet_prober 60) (map str_network (map unit ks)) = map h ks" for ks
    by (simp only: h_def map_map comp_def)
  have "two_subnet_prober (str_network (unit 2)) 60 \<noteq> TimedOut"
    using h23(1) ne(1) by (auto simp: h_def appended_def split: outcome.splits)
  then obtain out where cp: "two_subnet_prober (str_network (unit 2)) 60 = Completed out"
    by (cases "two_subnet_prober (str_network (unit 2)) 60")
       (simp_all add: two_subnet_prober_def split: if_splits)
  have "(2::nat) \<in> set [0 ..< 65536]" by simp
  then have in1: "str_network (unit 2) \<in> set (map str_network (map unit [0 ..< 65536]))"
    by (simp only: set_map) (intro imageI)
  then have in2: "str_network (unit 2) \<in> set (map str_network (map unit (rev [0 ..< 65536])))"
    by (simp only: set_map set_rev)
  have ex1: "\<exists>x \<in> set (map str_network (map unit [0 ..< 65536])).
      \<exists>out. two_subnet_prober x 60 = Completed out"
    using in1 cp by (intro bexI[of _ "str_network (unit 2)"] exI)
  have ex2: "\<exists>x \<in> set (map str_network (map unit (rev [0 ..< 65536]))).
      \<exists>out. two_subnet_prober x 60 = Completed out"
    using in2 cp by (intro bexI[of _ "str_network (unit 2)"] exI)
  have r: "rev (map unit [0 ..< 65536]) = map unit (rev [0 ..< 65536])"
    by (rule rev_map)
  show "run_scans two_subnet_prober 60 f (map str_network (map unit [0 ..< 65536])) =
           Some ((case f of None \<Rightarrow> [] | Some c \<Rightarrow> c) @ E2 @ E3)"
    by (simp only: run_scans_eq ex1 if_True m1 c1)
  show "run_scans two_subnet_prober 60 f (map str_network (rev (map unit [0 ..< 65536]))) =
           Some ((case f of None \<Rightarrow> [] | Some c \<Rightarrow> c) @ E3 @ E2)"
    unfolding r by (simp only: run_scans_eq ex2 if_True m1 c2)
qed

section \<open>Reports on concrete output files\<close>

lemma sorted_pair: "a < b \<Longrightarrow> sorted_list_of_set {a, b} = [a, b]" for a b :: "'a::linorder"
  by (simp add: sorted_list_of_set_insert_remove insort_is_Cons less_imp_le)

lemma subnet_strings_less: "py ''10.0.2.0/24'' < py ''10.0.3.0/24''"
  by (simp add: py_def)

lemmas parse_eval = parse_nmap_output_def report_line_def parse_line_def scan_entry_def
  one_host_entry_def

lemma parse_one_host:
  "parse_nmap_output (Some one_host_entry) = Inr ({}, [(py ''10.0.2.0/24'', [py ''10.0.2.5''])])"
  by (simp add: parse_eval py_eval del: set_filter)

lemma parse_one_host_twice:
  "parse_nmap_output (Some (one_host_entry @ one_host_entry)) =
     Inr ({py ''10.0.2.0/24''}, [(py ''10.0.2.0/24'', [py ''10.0.2.5'', py ''10.0.2.5''])])"
  by (simp add: parse_eval py_eval del: set_filter)

lemma parse_2_3:
  "parse_nmap_output (Some ([]
    @ scan_entry (py ''10.0.2.0/24'')
        (py ''Nmap scan report for 10.0.2.5'' @ [10] @ py ''Nmap scan report for 10.0.2.9'' @ [10])
    @ scan_entry (py ''10.0.3.0/24'')
        (py ''Nmap scan report for 10.0.3.5'' @ [10] @ py ''Nmap scan report for 10.0.3.9'' @ [10])))
   = Inr ({py ''10.0.2.0/24'', py ''10.0.3.0/24''},
          [(py ''10.0.2.0/24'', [py ''10.0.2.5'', py ''10.0.2.9'']),
           (py ''10.0.3.0/24'', [py ''10.0.3.5'', py ''10.0.3.9''])])"
  by (simp add: parse_eval py_eval del: set_filter)

lemma parse_3_2:
  "parse_nmap_output (Some ([]
    @ scan_entry (py ''10.0.3.0/24'')
        (py ''Nmap scan report for 10.0.3.5'' @ [10] @ py ''Nmap scan report for 10.0.3.9'' @ [10])
    @ scan_entry (py ''10.0.2.0/24'')
        (py ''Nmap scan report for 10.0.2.5'' @ [10] @ py ''Nmap scan report for 10.0.2.9'' @ [10])))
   = Inr ({py ''10.0.2.0/24'', py ''10.0.3.0/24''},
          [(py ''10.0.3.0/24'', [py ''10.0.3.5'', py ''10.0.3.9'']),
           (py ''10.0.2.0/24'', [py ''10.0.2.5'', py ''10.0.2.9''])])"
  by (simp add: parse_eval py_eval del: set_filter) auto

lemma parse_2_3_2_3:
  "parse_nmap_output (Some ((
      scan_entry (py ''10.0.2.0/24'')
        (py ''Nmap scan report for 10.0.2.5'' @ [10] @ py ''Nmap scan report for 10.0.2.9'' @ [10])
    @ scan_entry (py ''10.0.3.0/24'')
        (py ''Nmap scan report for 10.0.3.5'' @ [10] @ py ''Nmap scan report for 10.0.3.9'' @ [10]))
    @ scan_entry (py ''10.0.2.0/24'')
        (py ''Nmap scan report for 10.0.2.5'' @ [10] @ py ''Nmap scan report for 10.0.2.9'' @ [10])
    @ scan_entry (py ''10.0.3.0/24'')
        (py ''Nmap scan report for 10.0.3.5'' @ [10] @ py ''Nmap scan report for 10.0.3.9'' @ [10])))
   = Inr ({py ''10.0.2.0/24'', py ''10.0.3.0/24''},
          [(py ''10.0.2.0/24'', [py ''10.0.2.5'', py ''10.0.2.9'', py ''10.0.2.5'', py ''10.0.2.9'']),
           (py ''10.0.3.0/24'', [py ''10.0.3.5'', py ''10.0.3.9'', py ''10.0.3.5'', py ''10.0.3.9''])])"
  by (simp add: parse_eval py_eval del: set_filter)

lemma active_list_2_3:
  "save_to_file {py ''10.0.2.0/24'', py ''10.0.3.0/24''} = py ''10.0.2.0/24'' @ [10] @ py ''10.0.3.0/24'' @ [10]"
  by (simp add: save_to_file_def sorted_pair[OF subnet_strings_less])

text \<open>
  Claim C4 on the code. The output file holds two scan entries for 10.0.2.0/24 that each
  report the one host 10.0.2.5, as after a resumed run, which scans the unit of the
  marker again and appends to the file. \<^verbatim>\<open>parse_nmap_output\<close> counts the two report
  lines as two hosts and puts the subnet into the set of active subnets, although one
  distinct host was seen; with one entry the subnet is not active.
\<close>

theorem duplicate_host_marks_subnet_active:
  "parse_nmap_output (Some one_host_entry) = Inr ({}, [(py ''10.0.2.0/24'', [py ''10.0.2.5''])])
   \<and> parse_nmap_output (Some (one_host_entry @ one_host_entry)) =
       Inr ({py ''10.0.2.0/24''}, [(py ''10.0.2.0/24'', [py ''10.0.2.5'', py ''10.0.2.5''])])"
  using parse_one_host parse_one_host_twice by (rule conjI)

text \<open>
  Claim C9, as stated, fails, in two ways. The host report lists the subnets in the order
  in which the scans wrote their output, so two runs from no files whose scans write in
  different orders give different host reports. And a second run in succession finds the
  output of the first run in the output file, appends to it, and lists every host twice.
\<close>

theorem successive_runs_report_differently:
  "reports (scan_networks no_ipv6 two_subnet_prober in_order 60 no_files) =
     Inr (py ''10.0.2.0/24'' @ [10] @ py ''10.0.3.0/24'' @ [10],
          py ''Subnet: 10.0.2.0/24'' @ [10] @ py ''  10.0.2.5'' @ [10] @ py ''  10.0.2.9'' @ [10, 10]
          @ py ''Subnet: 10.0.3.0/24'' @ [10] @ py ''  10.0.3.5'' @ [10] @ py ''  10.0.3.9'' @ [10, 10])
   \<and> reports (scan_networks no_ipv6 two_subnet_prober reverse_writes 60 no_files) =
     Inr (py ''10.0.2.0/24'' @ [10] @ py ''10.0.3.0/24'' @ [10],
          py ''Subnet: 10.0.3.0/24'' @ [10] @ py ''  10.0.3.5'' @ [10] @ py ''  10.0.3.9'' @ [10, 10]
          @ py ''Subnet: 10.0.2.0/24'' @ [10] @ py ''  10.0.2.5'' @ [10] @ py ''  10.0.2.9'' @ [10, 10])
   \<and> progress_file ((files_after (scan_networks no_ipv6 two_subnet_prober in_order 60 no_files))
        \<lparr>progress_file := None\<rparr>) = None
   \<and> reports (scan_networks no_ipv6 two_subnet_prober in_order 60
        ((files_after (scan_networks no_ipv6 two_subnet_prober in_order 60 no_files))
           \<lparr>progress_file := None\<rparr>)) =
     Inr (py ''10.0.2.0/24'' @ [10] @ py ''10.0.3.0/24'' @ [10],
          py ''Subnet: 10.0.2.0/24'' @ [10] @ py ''  10.0.2.5'' @ [10] @ py ''  10.0.2.9'' @ [10]
          @ py ''  10.0.2.5'' @ [10] @ py ''  10.0.2.9'' @ [10, 10]
          @ py ''Subnet: 10.0.3.0/24'' @ [10] @ py ''  10.0.3.5'' @ [10] @ py ''  10.0.3.9'' @ [10]
          @ py ''  10.0.3.5'' @ [10] @ py ''  10.0.3.9'' @ [10, 10])"
proof -
  define full where
    "full = map (\<lambda>k. \<lparr>network_address = 167772160 + k * 256, prefixlen = 24\<rparr>) [0 ..< 65536]"
  define r1 where "r1 = scan_networks no_ipv6 two_subnet_prober in_order 60 no_files"
  define fs' where "fs' = (files_after r1)\<lparr>progress_file := None\<rparr>"
  have p0: "progress_file no_files = None
      \<or> (\<exists>c. progress_file no_files = Some c \<and> strip (read_text c) = [])"
    by (simp add: no_files_def)
  have p1: "progress_file fs' = None \<or> (\<exists>c. progress_file fs' = Some c \<and> strip (read_text c) = [])"
    by (simp add: fs'_def)
  have n0: "nmap_output_file no_files = None" by (simp add: no_files_def)
  have wi: "write_order in_order full = full" by (simp add: in_order_def)
  have wr: "write_order reverse_writes full = rev full" by (simp add: reverse_writes_def)
  have a: "reports r1 =
     Inr (py ''10.0.2.0/24'' @ [10] @ py ''10.0.3.0/24'' @ [10],
          py ''Subnet: 10.0.2.0/24'' @ [10] @ py ''  10.0.2.5'' @ [10] @ py ''  10.0.2.9'' @ [10, 10]
          @ py ''Subnet: 10.0.3.0/24'' @ [10] @ py ''  10.0.3.5'' @ [10] @ py ''  10.0.3.9'' @ [10, 10])"
    unfolding r1_def fresh_run_reports[OF p0] full_def[symmetric] wi n0
    unfolding full_def two_subnet_output(1) option.case parse_2_3
    by (simp only: sum.case prod.case active_list_2_3) (simp add: hosts_report_def py_def)
  have b: "reports (scan_networks no_ipv6 two_subnet_prober reverse_writes 60 no_files) =
     Inr (py ''10.0.2.0/24'' @ [10] @ py ''10.0.3.0/24'' @ [10],
          py ''Subnet: 10.0.3.0/24'' @ [10] @ py ''  10.0.3.5'' @ [10] @ py ''  10.0.3.9'' @ [10, 10]
          @ py ''Subnet: 10.0.2.0/24'' @ [10] @ py ''  10.0.2.5'' @ [10] @ py ''  10.0.2.9'' @ [10, 10])"
    unfolding fresh_run_reports[OF p0] full_def[symmetric] wr n0
    unfolding full_def two_subnet_output(2) option.case parse_3_2
    by (simp only: sum.case prod.case active_list_2_3) (simp add: hosts_report_def py_def)
  have st: "start_network_of no_ipv6 (load_progress (progress_file no_files)) = Inr None"
    by (rule start_network_absent_or_empty[OF p0])
  have "nmap_output_file (files_after r1) =
      run_scans two_subnet_prober 60 (nmap_output_file no_files) (map str_network (write_order in_order full))"
    unfolding r1_def full_def
    by (rule scan_networks_submitted(3)[OF st base_submit_None])
  also have "\<dots> = run_scans two_subnet_prober 60 None (map str_network full)"
    by (simp only: wi n0)
  also have "\<dots> = Some ([]
      @ scan_entry (py ''10.0.2.0/24'')
          (py ''Nmap scan report for 10.0.2.5'' @ [10] @ py ''Nmap scan report for 10.0.2.9'' @ [10])
      @ scan_entry (py ''10.0.3.0/24'')
          (py ''Nmap scan report for 10.0.3.5'' @ [10] @ py ''Nmap scan report for 10.0.3.9'' @ [10]))"
    unfolding full_def by (simp only: two_subnet_output(1) option.case)
  finally have n1: "nmap_output_file fs' = Some ([]
      @ scan_entry (py ''10.0.2.0/24'')
          (py ''Nmap scan report for 10.0.2.5'' @ [10] @ py ''Nmap scan report for 10.0.2.9'' @ [10])
      @ scan_entry (py ''10.0.3.0/24'')
          (py ''Nmap scan report for 10.0.3.5'' @ [10] @ py ''Nmap scan report for 10.0.3.9'' @ [10]))"
    by (simp add: fs'_def)
  have c: "progress_file fs' = None" by (simp add: fs'_def)
  have d: "reports (scan_networks no_ipv6 two_subnet_prober in_order 60 fs') =
     Inr (py ''10.0.2.0/24'' @ [10] @ py ''10.0.3.0/24'' @ [10],
          py ''Subnet: 10.0.2.0/24'' @ [10] @ py ''  10.0.2.5'' @ [10] @ py ''  10.0.2.9'' @ [10]
          @ py ''  10.0.2.5'' @ [10] @ py ''  10.0.2.9'' @ [10, 10]
          @ py ''Subnet: 10.0.3.0/24'' @ [10] @ py ''  10.0.3.5'' @ [10] @ py ''  10.0.3.9'' @ [10]
          @ py ''  10.0.3.5'' @ [10] @ py ''  10.0.3.9'' @ [10, 10])"
    unfolding fresh_run_reports[OF p1] full_def[symmetric] wi n1
    unfolding full_def two_subnet_output(1) option.case append_Nil parse_2_3_2_3
    by (simp only: sum.case prod.case active_list_2_3) (simp add: hosts_report_def py_def)
  from a b c d show ?thesis unfolding fs'_def r1_def by blast
qed

end
